theory Spec2Isabelle
  imports Main "HOL-Library.AList"
begin

section \<open>JavaScript strings and the regular expressions of the field extractor\<close>

text \<open>
  A JavaScript string is a sequence of UTF-16 code units.  A code unit is modelled by its
  numeric value, so that Devanagari and Gujarati transcripts are ordinary inputs.
  \<open>js\<close> embeds an ASCII literal.
\<close>

type_synonym jsstring = "nat list"

definition js :: "string \<Rightarrow> jsstring" where
  "js s = map of_char s"

text \<open>The character classes \<open>\d\<close> (ASCII digits only) and \<open>\s\<close> (ECMAScript WhiteSpace and
  LineTerminator code points; \<open>String.prototype.trim\<close> strips the same set).\<close>

definition is_digit :: "nat \<Rightarrow> bool" where
  "is_digit c = (48 \<le> c \<and> c \<le> 57)"

definition is_space :: "nat \<Rightarrow> bool" where
  "is_space c =
     (c = 9 \<or> c = 10 \<or> c = 11 \<or> c = 12 \<or> c = 13 \<or> c = 32 \<or> c = 160 \<or> c = 5760
      \<or> (8192 \<le> c \<and> c \<le> 8202) \<or> c = 8232 \<or> c = 8233 \<or> c = 8239 \<or> c = 8287
      \<or> c = 12288 \<or> c = 65279)"

text \<open>
  Case folding of the \<open>i\<close> flag without the \<open>u\<close> flag (ECMA-262, Canonicalize): a code
  unit is mapped to its upper-case form, except that a code unit of value 128 or more is
  never mapped below 128.  Every pattern character of this program is ASCII, so only the
  ASCII part of the mapping decides a comparison.
\<close>

definition canonicalize :: "nat \<Rightarrow> nat" where
  "canonicalize c = (if 97 \<le> c \<and> c \<le> 122 then c - 32 else c)"

text \<open>The regular-expression constructs that occur in the source.\<close>

datatype rx =
    Cls "nat \<Rightarrow> bool"
  | Eps
  | Seq rx rx
  | Alt rx rx
  | Opt rx
  | Plus "nat \<Rightarrow> bool"

text \<open>
  Backtracking matcher in continuation-passing style, with the priorities of ECMAScript:
  the left alternative first, a greedy quantifier takes the longer match first.  The
  continuation receives the rest of the input after the match.
\<close>

fun star :: "(nat \<Rightarrow> bool) \<Rightarrow> jsstring \<Rightarrow> (jsstring \<Rightarrow> jsstring option) \<Rightarrow> jsstring option" where
  "star p [] k = k []"
| "star p (c # cs) k =
     (if p c then (case star p cs k of Some r \<Rightarrow> Some r | None \<Rightarrow> k (c # cs))
      else k (c # cs))"

fun bt :: "rx \<Rightarrow> jsstring \<Rightarrow> (jsstring \<Rightarrow> jsstring option) \<Rightarrow> jsstring option" where
  "bt (Cls p) s k = (case s of [] \<Rightarrow> None | c # cs \<Rightarrow> if p c then k cs else None)"
| "bt Eps s k = k s"
| "bt (Seq a b) s k = bt a s (\<lambda>r. bt b r k)"
| "bt (Alt a b) s k = (case bt a s k of Some r \<Rightarrow> Some r | None \<Rightarrow> bt b s k)"
| "bt (Opt a) s k = (case bt a s k of Some r \<Rightarrow> Some r | None \<Rightarrow> k s)"
| "bt (Plus p) s k = (case s of [] \<Rightarrow> None | c # cs \<Rightarrow> if p c then star p cs k else None)"

fun rep :: "nat \<Rightarrow> rx \<Rightarrow> rx" where
  "rep 0 r = Eps"
| "rep (Suc n) r = Seq r (rep n r)"

fun lit_i :: "string \<Rightarrow> rx" where
  "lit_i [] = Eps"
| "lit_i (ch # w) = Seq (Cls (\<lambda>c. canonicalize c = canonicalize (of_char ch))) (lit_i w)"

fun alts :: "rx list \<Rightarrow> rx" where
  "alts [] = Cls (\<lambda>c. False)"
| "alts [r] = r"
| "alts (r # rs) = Alt r (alts rs)"

text \<open>The rest of the input after a match that starts at the beginning of the input.\<close>

definition match_here :: "rx \<Rightarrow> jsstring \<Rightarrow> jsstring option" where
  "match_here r s = bt r s Some"

text \<open>\<open>text.match(r)\<close> for a regular expression without the \<open>g\<close> flag: the matched text of
  the leftmost match, \<open>None\<close> for \<open>null\<close>.\<close>

fun js_match :: "rx \<Rightarrow> jsstring \<Rightarrow> jsstring option" where
  "js_match r [] = (case match_here r [] of Some rest \<Rightarrow> Some [] | None \<Rightarrow> None)"
| "js_match r (c # cs) =
     (case match_here r (c # cs) of
        Some rest \<Rightarrow> Some (take (length (c # cs) - length rest) (c # cs))
      | None \<Rightarrow> js_match r cs)"

text \<open>\<open>text.replace(r, rep)\<close> for a regular expression with the \<open>g\<close> flag.  After an empty
  match the search moves on by one code unit, as \<open>lastIndex\<close> does.\<close>

function js_replace :: "rx \<Rightarrow> jsstring \<Rightarrow> jsstring \<Rightarrow> jsstring" where
  "js_replace r new s =
     (case match_here r s of
        Some rest \<Rightarrow>
          if length rest < length s then new @ js_replace r new rest
          else (case s of [] \<Rightarrow> new | c # cs \<Rightarrow> new @ c # js_replace r new cs)
      | None \<Rightarrow> (case s of [] \<Rightarrow> [] | c # cs \<Rightarrow> c # js_replace r new cs))"
  by pat_completeness auto
termination
  by (relation "measure (\<lambda>(r, new, s). length s)") auto

declare js_replace.simps [simp del]

text \<open>\<open>/^(...)$/.test(s)\<close>: the whole string matches.\<close>

definition js_test_whole :: "rx \<Rightarrow> jsstring \<Rightarrow> bool" where
  "js_test_whole r s =
     (case bt r s (\<lambda>rest. if rest = [] then Some rest else None) of
        Some rest \<Rightarrow> True
      | None \<Rightarrow> False)"

definition js_trim :: "jsstring \<Rightarrow> jsstring" where
  "js_trim s = rev (dropWhile is_space (rev (dropWhile is_space s)))"

text \<open>\<open>s || null\<close> for a string \<open>s\<close>: the empty string is falsy.\<close>

definition or_null :: "jsstring \<Rightarrow> jsstring option" where
  "or_null s = (if s = [] then None else Some s)"

section \<open>FieldExtractor\<close>

text \<open>The regular-expression literals of \<open>extractValue\<close>.\<close>

definition rx_d10 :: rx where
  "rx_d10 = rep 10 (Cls is_digit)"

definition rx_nondigit :: rx where
  "rx_nondigit = Cls (\<lambda>c. \<not> is_digit c)"

definition rx_aadhar :: rx where
  "rx_aadhar =
     Seq (rep 4 (Cls is_digit)) (Seq (Opt (Cls is_space))
       (Seq (rep 4 (Cls is_digit)) (Seq (Opt (Cls is_space)) (rep 4 (Cls is_digit)))))"

definition rx_ws :: rx where
  "rx_ws = Plus is_space"

text \<open>\<open>/(my name is|mera naam|naam|hai|is|hain|ji)/gi\<close> and
  \<open>/^(tell|call|what|how|why|can|ok|yes|no|stop|help|hello|hi)$/i\<close>
  (components/AssistantWidget.jsx, second module).\<close>

definition filler_words :: "string list" where
  "filler_words = [''my name is'', ''mera naam'', ''naam'', ''hai'', ''is'', ''hain'', ''ji'']"

definition reject_words :: "string list" where
  "reject_words = [''tell'', ''call'', ''what'', ''how'', ''why'', ''can'', ''ok'', ''yes'', ''no'',
     ''stop'', ''help'', ''hello'', ''hi'']"

definition rx_fillers :: rx where
  "rx_fillers = alts (map lit_i filler_words)"

definition rx_reject :: rx where
  "rx_reject = alts (map lit_i reject_words)"

text \<open>
  \<open>extractValue(text, fieldType)\<close> of components/AssistantWidget.jsx (the module with the
  mutable references).  \<open>None\<close> is \<open>null\<close>, the "no match" of the specification.  The field
  type is \<open>None\<close> when the caller read it past the end of the field order (\<open>undefined\<close>).
\<close>

definition extractValue :: "jsstring \<Rightarrow> jsstring option \<Rightarrow> jsstring option" where
  "extractValue text fieldType =
     (if text = [] then None
      else if fieldType = Some (js ''mobile'') then
        (case js_match rx_d10 text of
           Some m \<Rightarrow> Some m
         | None \<Rightarrow> or_null (take 10 (js_replace rx_nondigit [] text)))
      else if fieldType = Some (js ''aadhar'') then
        (case js_match rx_aadhar text of
           Some m \<Rightarrow> Some m
         | None \<Rightarrow> or_null (take 12 (js_replace rx_nondigit [] text)))
      else
        (let cleaned = js_trim (js_replace rx_ws [32] (js_replace rx_fillers [] text))
         in if js_test_whole rx_reject cleaned \<or> length cleaned < 2 then None
            else Some cleaned))"

text \<open>
  The earlier \<open>extractValue\<close> of hooks/useVoiceAssistant.js: the digits are not truncated
  and an empty digit string is returned as it is, white space is not collapsed, the filler
  and reject lists are shorter and the minimum length is 3.
\<close>

definition filler_words_hook :: "string list" where
  "filler_words_hook = [''my name is'', ''mera naam'', ''naam'', ''hai'', ''is'']"

definition reject_words_hook :: "string list" where
  "reject_words_hook = [''tell'', ''call'', ''what'', ''how'', ''why'', ''can'', ''ok'', ''yes'',
     ''no'', ''stop'', ''help'']"

definition extractValue_hook :: "jsstring \<Rightarrow> jsstring option \<Rightarrow> jsstring option" where
  "extractValue_hook text fieldType =
     (if text = [] then None
      else if fieldType = Some (js ''mobile'') then
        (case js_match rx_d10 text of
           Some m \<Rightarrow> Some m
         | None \<Rightarrow> Some (js_replace rx_nondigit [] text))
      else if fieldType = Some (js ''aadhar'') then
        (case js_match rx_aadhar text of
           Some m \<Rightarrow> Some m
         | None \<Rightarrow> Some (js_replace rx_nondigit [] text))
      else
        (let cleanText = js_trim (js_replace (alts (map lit_i filler_words_hook)) [] text)
         in if js_test_whole (alts (map lit_i reject_words_hook)) cleanText
               \<or> length cleanText < 3 then None
            else Some cleanText))"

section \<open>The format constraints of the digit fields\<close>

text \<open>A run of \<open>n\<close> consecutive digits starts at index \<open>i\<close> of \<open>s\<close>.\<close>

definition digit_run_at :: "nat \<Rightarrow> jsstring \<Rightarrow> nat \<Rightarrow> bool" where
  "digit_run_at n s i = (i + n \<le> length s \<and> list_all is_digit (take n (drop i s)))"

text \<open>The first (leftmost) run of \<open>n\<close> consecutive digits, if there is one.\<close>

definition first_digit_run :: "nat \<Rightarrow> jsstring \<Rightarrow> jsstring option" where
  "first_digit_run n s =
     map_option (\<lambda>i. take n (drop i s)) (find (digit_run_at n s) [0..<Suc (length s)])"

text \<open>
  The rule for the mobile field in the words of the specification: the first run of 10
  consecutive digits if present; otherwise all digits of the transcript truncated to 10;
  "no match" when that is empty.
\<close>

definition mobile_rule :: "jsstring \<Rightarrow> jsstring option" where
  "mobile_rule t =
     (case first_digit_run 10 t of
        Some m \<Rightarrow> Some m
      | None \<Rightarrow> (let d = take 10 (filter is_digit t) in if d = [] then None else Some d))"

text \<open>A 4-4-4 digit grouping: three groups of four digits, each of the two gaps empty or
  one white-space code unit.\<close>

definition skip_sep :: "jsstring \<Rightarrow> jsstring" where
  "skip_sep s = (case s of [] \<Rightarrow> [] | c # cs \<Rightarrow> if is_space c then cs else s)"

definition is_444 :: "jsstring \<Rightarrow> bool" where
  "is_444 v =
     (let r1 = skip_sep (drop 4 v); r2 = skip_sep (drop 4 r1)
      in length (take 4 v) = 4 \<and> length (take 4 r1) = 4 \<and> length r2 = 4
         \<and> list_all is_digit (take 4 v @ take 4 r1 @ r2))"

section \<open>What the regular expressions of the digit fields match\<close>

lemma bt_rep_cls:
  "bt (rep n (Cls p)) s k = (if n \<le> length s \<and> list_all p (take n s) then k (drop n s) else None)"
proof (induction n arbitrary: s)
  case 0
  show ?case by simp
next
  case (Suc n)
  show ?case by (cases s) (auto simp: Suc)
qed

lemma js_replace_cls_empty:
  "js_replace (Cls p) [] s = filter (\<lambda>c. \<not> p c) s"
proof (induction s)
  case Nil
  show ?case by (simp add: js_replace.simps match_here_def)
next
  case (Cons c cs)
  show ?case using Cons by (simp add: js_replace.simps [of _ _ "c # cs"] match_here_def)
qed

lemma js_replace_nondigit: "js_replace rx_nondigit [] s = filter is_digit s"
  by (simp add: rx_nondigit_def js_replace_cls_empty)

lemma match_here_rep_digit:
  "match_here (rep n (Cls is_digit)) s = (if digit_run_at n s 0 then Some (drop n s) else None)"
  by (simp add: match_here_def bt_rep_cls digit_run_at_def)

lemma digit_run_at_Cons: "digit_run_at n (c # cs) (Suc i) = digit_run_at n cs i"
  by (simp add: digit_run_at_def)

lemma js_match_first_run:
  "digit_run_at n s i \<Longrightarrow> (\<forall>j<i. \<not> digit_run_at n s j) \<Longrightarrow>
   js_match (rep n (Cls is_digit)) s = Some (take n (drop i s))"
proof (induction s arbitrary: i)
  case Nil
  then have "n = 0" by (simp add: digit_run_at_def)
  then show ?case by (simp add: match_here_def)
next
  case (Cons c cs)
  show ?case
  proof (cases i)
    case 0
    with Cons.prems show ?thesis
      by (simp add: match_here_rep_digit) (simp add: digit_run_at_def)
  next
    case (Suc i')
    with Cons.prems have no0: "\<not> digit_run_at n (c # cs) 0" by blast
    from Cons.prems Suc have r: "digit_run_at n cs i'" by (simp add: digit_run_at_Cons)
    from Cons.prems Suc have "\<forall>j<i'. \<not> digit_run_at n cs j"
      using digit_run_at_Cons by (metis Suc_less_eq)
    with r have "js_match (rep n (Cls is_digit)) cs = Some (take n (drop i' cs))"
      by (rule Cons.IH)
    with no0 Suc show ?thesis by (simp add: match_here_rep_digit)
  qed
qed

lemma js_match_no_run:
  "(\<forall>j. \<not> digit_run_at n s j) \<Longrightarrow> js_match (rep n (Cls is_digit)) s = None"
proof (induction s)
  case Nil
  then show ?case by (simp add: match_here_rep_digit)
next
  case (Cons c cs)
  then have "\<forall>j. \<not> digit_run_at n cs j" using digit_run_at_Cons by blast
  with Cons show ?case by (simp add: match_here_rep_digit)
qed

lemma js_match_digit_run: "js_match (rep n (Cls is_digit)) s = first_digit_run n s"
proof (cases "find (digit_run_at n s) [0..<Suc (length s)]")
  case None
  then have "\<forall>j. j < Suc (length s) \<longrightarrow> \<not> digit_run_at n s j"
    by (auto simp: find_None_iff simp del: upt_Suc)
  moreover have "\<forall>j. \<not> j < Suc (length s) \<longrightarrow> \<not> digit_run_at n s j"
    by (simp add: digit_run_at_def)
  ultimately have "\<forall>j. \<not> digit_run_at n s j" by blast
  then have "js_match (rep n (Cls is_digit)) s = None" by (rule js_match_no_run)
  with None show ?thesis by (simp add: first_digit_run_def)
next
  case (Some i)
  then obtain k where k: "k < length [0..<Suc (length s)]"
    "digit_run_at n s ([0..<Suc (length s)] ! k)" "i = [0..<Suc (length s)] ! k"
    "\<forall>j<k. \<not> digit_run_at n s ([0..<Suc (length s)] ! j)"
    unfolding find_Some_iff by blast
  from k(1) have kl: "k < Suc (length s)" by simp
  then have ik: "i = k" using k(3) by (simp del: upt_Suc)
  from k(2) kl have run: "digit_run_at n s k" by (simp del: upt_Suc)
  have "\<forall>j<k. \<not> digit_run_at n s j"
  proof (intro allI impI)
    fix j assume "j < k"
    with k(4) kl have "\<not> digit_run_at n s ([0..<Suc (length s)] ! j)" by blast
    moreover from \<open>j < k\<close> kl have "[0..<Suc (length s)] ! j = j" by (simp del: upt_Suc)
    ultimately show "\<not> digit_run_at n s j" by simp
  qed
  with run have "js_match (rep n (Cls is_digit)) s = Some (take n (drop k s))"
    by (rule js_match_first_run)
  with Some ik show ?thesis by (simp add: first_digit_run_def)
qed

lemma first_digit_run_format:
  "first_digit_run n s = Some m \<Longrightarrow> length m = n \<and> list_all is_digit m"
  by (auto simp: first_digit_run_def digit_run_at_def find_Some_iff simp del: upt_Suc)

lemma or_null_take_digits:
  "or_null (take n (filter is_digit s)) = Some v \<Longrightarrow>
   list_all is_digit v \<and> 1 \<le> length v \<and> length v \<le> n"
proof -
  assume a: "or_null (take n (filter is_digit s)) = Some v"
  then have v: "v = take n (filter is_digit s)" and ne: "v \<noteq> []"
    by (auto simp: or_null_def split: if_splits)
  have "set v \<subseteq> set (filter is_digit s)" unfolding v by (rule set_take_subset)
  then have "list_all is_digit v" by (auto simp: list_all_iff)
  moreover from ne have "1 \<le> length v" by (cases v) auto
  moreover have "length v \<le> n" unfolding v by simp
  ultimately show ?thesis by blast
qed

lemma digit_not_space: "is_digit c \<Longrightarrow> \<not> is_space c"
  by (auto simp: is_digit_def is_space_def)

lemma bt_rep_cls_Some:
  assumes "bt (rep n (Cls p)) s k = Some r"
  shows "\<exists>a s'. s = a @ s' \<and> length a = n \<and> list_all p a \<and> k s' = Some r"
proof -
  from assms have c: "n \<le> length s" "list_all p (take n s)" "k (drop n s) = Some r"
    by (auto simp: bt_rep_cls split: if_splits)
  have "s = take n s @ drop n s" by simp
  moreover from c(1) have "length (take n s) = n" by simp
  ultimately show ?thesis using c(2,3) by blast
qed

lemma bt_opt_cls_Some:
  assumes "bt (Opt (Cls p)) s k = Some r"
  shows "\<exists>sep s'. s = sep @ s' \<and> (sep = [] \<or> (\<exists>w. sep = [w] \<and> p w)) \<and> k s' = Some r"
proof (cases "bt (Cls p) s k")
  case None
  with assms have "k s = Some r" by simp
  then show ?thesis by fastforce
next
  case (Some r')
  with assms have r: "r' = r" by simp
  from Some obtain w s' where "s = w # s'" "p w" "k s' = Some r'"
    by (cases s) (auto split: if_splits)
  with r have "s = [w] @ s' \<and> ([w] = [] \<or> (\<exists>x. [w] = [x] \<and> p x)) \<and> k s' = Some r" by simp
  then show ?thesis by blast
qed

lemma length4: "length xs = 4 \<Longrightarrow> \<exists>w x y z. xs = [w, x, y, z]"
  by (auto simp: length_Suc_conv eval_nat_numeral)

lemma is_444_groups:
  assumes "length a = 4" "length b = 4" "length c = 4"
    "list_all is_digit a" "list_all is_digit b" "list_all is_digit c"
    "s1 = [] \<or> (\<exists>w. s1 = [w] \<and> is_space w)" "s2 = [] \<or> (\<exists>w. s2 = [w] \<and> is_space w)"
  shows "is_444 (a @ s1 @ b @ s2 @ c)"
proof -
  from assms(1) obtain a1 a2 a3 a4 where a: "a = [a1, a2, a3, a4]" using length4 by blast
  from assms(2) obtain b1 b2 b3 b4 where b: "b = [b1, b2, b3, b4]" using length4 by blast
  from assms(3) obtain c1 c2 c3 c4 where c: "c = [c1, c2, c3, c4]" using length4 by blast
  from assms(5) b have nb: "\<not> is_space b1" by (simp add: digit_not_space)
  from assms(6) c have nc: "\<not> is_space c1" by (simp add: digit_not_space)
  from assms(7,8) show ?thesis
    using assms(4,5,6) nb nc unfolding a b c
    by (auto simp: is_444_def skip_sep_def)
qed

lemma match_here_aadhar_444:
  assumes "match_here rx_aadhar s = Some rest"
  shows "is_444 (take (length s - length rest) s)"
proof -
  let ?D = "rep 4 (Cls is_digit)" and ?S = "Opt (Cls is_space)"
  from assms have m: "bt ?D s (\<lambda>r. bt ?S r (\<lambda>r. bt ?D r (\<lambda>r. bt ?S r (\<lambda>r. bt ?D r Some)))) = Some rest"
    by (simp add: match_here_def rx_aadhar_def)
  from bt_rep_cls_Some [OF m] obtain a t1 where
    a: "s = a @ t1" "length a = 4" "list_all is_digit a"
    and m1: "bt ?S t1 (\<lambda>r. bt ?D r (\<lambda>r. bt ?S r (\<lambda>r. bt ?D r Some))) = Some rest" by blast
  from bt_opt_cls_Some [OF m1] obtain s1 t2 where
    s1: "t1 = s1 @ t2" "s1 = [] \<or> (\<exists>w. s1 = [w] \<and> is_space w)"
    and m2: "bt ?D t2 (\<lambda>r. bt ?S r (\<lambda>r. bt ?D r Some)) = Some rest" by blast
  from bt_rep_cls_Some [OF m2] obtain b t3 where
    b: "t2 = b @ t3" "length b = 4" "list_all is_digit b"
    and m3: "bt ?S t3 (\<lambda>r. bt ?D r Some) = Some rest" by blast
  from bt_opt_cls_Some [OF m3] obtain s2 t4 where
    s2: "t3 = s2 @ t4" "s2 = [] \<or> (\<exists>w. s2 = [w] \<and> is_space w)"
    and m4: "bt ?D t4 Some = Some rest" by blast
  from bt_rep_cls_Some [OF m4] obtain c where
    c: "t4 = c @ rest" "length c = 4" "list_all is_digit c" by blast
  have s: "s = (a @ s1 @ b @ s2 @ c) @ rest"
    using a(1) s1(1) b(1) s2(1) c(1) by simp
  have "take (length s - length rest) s = a @ s1 @ b @ s2 @ c"
    by (subst s, subst s) simp
  moreover have "is_444 (a @ s1 @ b @ s2 @ c)"
    using a(2) b(2) c(2) a(3) b(3) c(3) s1(2) s2(2) by (rule is_444_groups)
  ultimately show ?thesis by simp
qed

lemma js_match_witness:
  "js_match r s = Some m \<Longrightarrow>
   \<exists>s' rest. match_here r s' = Some rest \<and> m = take (length s' - length rest) s'"
proof (induction s)
  case Nil
  then show ?case by (auto split: option.splits)
next
  case (Cons c cs)
  show ?case
  proof (cases "match_here r (c # cs)")
    case None
    with Cons show ?thesis by simp
  next
    case (Some rest)
    with Cons.prems have "m = take (length (c # cs) - length rest) (c # cs)" by simp
    with Some show ?thesis by blast
  qed
qed

lemma js_match_aadhar_444: "js_match rx_aadhar s = Some m \<Longrightarrow> is_444 m"
  using js_match_witness match_here_aadhar_444 by blast

section \<open>Evaluating the extractor on concrete transcripts\<close>

lemma rep_numeral: "rep (numeral k) r = Seq r (rep (pred_numeral k) r)"
  by (simp add: numeral_eq_Suc)

lemmas extract_eval =
  rep_numeral js_def extractValue_def extractValue_hook_def rx_d10_def rx_nondigit_def rx_aadhar_def
  rx_fillers_def rx_reject_def rx_ws_def filler_words_def reject_words_def
  filler_words_hook_def reject_words_hook_def js_replace.simps match_here_def js_test_whole_def js_trim_def
  is_space_def is_digit_def canonicalize_def or_null_def

section \<open>Scenario A\<close>

text \<open>
  C9.  The transcript "my name is Rajesh Kumar" on the generic-text field \<open>name\<close> yields
  exactly the value "Rajesh Kumar"; the extractor takes no language argument, so this is
  the result for the language \<open>en\<close> as for any other.
\<close>

theorem scenario_A_rajesh_kumar:
  "extractValue (js ''my name is Rajesh Kumar'') (Some (js ''name'')) = Some (js ''Rajesh Kumar'')"
  by (simp add: extract_eval)

section \<open>Format of the digit fields\<close>

lemma field_names_distinct: "js ''mobile'' \<noteq> js ''aadhar''"
  by (simp add: js_def)

lemma extractValue_mobile:
  "extractValue t (Some (js ''mobile'')) = mobile_rule t"
proof (cases "t = []")
  case True
  then show ?thesis
    by (simp add: extractValue_def mobile_rule_def first_digit_run_def digit_run_at_def)
next
  case False
  then show ?thesis
    by (simp add: extractValue_def mobile_rule_def rx_d10_def js_match_digit_run
        js_replace_nondigit or_null_def Let_def cong: option.case_cong)
qed

lemma extractValue_mobile_format:
  assumes "extractValue t (Some (js ''mobile'')) = Some v"
  shows "list_all is_digit v \<and> 1 \<le> length v \<and> length v \<le> 10"
proof (cases "first_digit_run 10 t")
  case None
  with assms have "or_null (take 10 (filter is_digit t)) = Some v"
    by (simp add: extractValue_mobile mobile_rule_def or_null_def Let_def)
  then show ?thesis by (rule or_null_take_digits)
next
  case (Some m)
  with assms have "v = m" by (simp add: extractValue_mobile mobile_rule_def)
  with Some first_digit_run_format [of 10 t m] show ?thesis by simp
qed

lemma extractValue_aadhar_format:
  assumes "extractValue t (Some (js ''aadhar'')) = Some v"
  shows "is_444 v \<or> (list_all is_digit v \<and> 1 \<le> length v \<and> length v \<le> 12)"
proof (cases "js_match rx_aadhar t")
  case None
  with assms have "or_null (take 12 (filter is_digit t)) = Some v"
    using field_names_distinct
    by (auto simp: extractValue_def js_replace_nondigit split: if_splits)
  then show ?thesis using or_null_take_digits by blast
next
  case (Some m)
  with assms have "v = m"
    using field_names_distinct by (auto simp: extractValue_def split: if_splits)
  with Some show ?thesis using js_match_aadhar_444 by blast
qed

text \<open>
  C1 (as amended).  For every transcript, \<open>extractValue\<close> on the field type \<open>mobile\<close>
  returns the first run of 10 consecutive digits if one is present, otherwise all digits
  of the transcript truncated to 10, and "no match" when that is empty; so a returned
  value is a string of 1 to 10 digits, not always of exactly 10.  On the field type
  \<open>aadhar\<close> a returned value is a 4-4-4 digit grouping (each gap empty or one white-space
  code unit) or a string of 1 to 12 digits.
\<close>

theorem extractValue_digit_fields:
  "extractValue t (Some (js ''mobile'')) = mobile_rule t
   \<and> (\<forall>v. extractValue t (Some (js ''mobile'')) = Some v \<longrightarrow>
          list_all is_digit v \<and> 1 \<le> length v \<and> length v \<le> 10)
   \<and> (\<forall>v. extractValue t (Some (js ''aadhar'')) = Some v \<longrightarrow>
          is_444 v \<or> (list_all is_digit v \<and> 1 \<le> length v \<and> length v \<le> 12))"
  using extractValue_mobile extractValue_mobile_format extractValue_aadhar_format by blast

text \<open>The transcript "123" on the mobile field and "12345" on the aadhar field: the value
  returned has neither the 10 digits nor the 12 digits or 4-4-4 grouping of the claim.\<close>

theorem extractValue_short_digits_counterexample:
  "extractValue (js ''123'') (Some (js ''mobile'')) = Some (js ''123'')
   \<and> length (js ''123'') \<noteq> 10
   \<and> extractValue (js ''12345'') (Some (js ''aadhar'')) = Some (js ''12345'')
   \<and> length (js ''12345'') \<noteq> 12
   \<and> \<not> is_444 (js ''12345'')"
  by (simp add: extract_eval is_444_def skip_sep_def)

theorem extractValue_digit_fields_witness:
  "extractValue (js ''my number is 98765 9876543210'') (Some (js ''mobile''))
     = Some (js ''9876543210'')
   \<and> list_all is_digit (js ''9876543210'')
   \<and> length (js ''9876543210'') = 10
   \<and> extractValue (js ''1234 5678 9012'') (Some (js ''aadhar'')) = Some (js ''1234 5678 9012'')
   \<and> (is_444 (js ''1234 5678 9012'')
        \<or> (list_all is_digit (js ''1234 5678 9012'') \<and> 1 \<le> length (js ''1234 5678 9012'')
            \<and> length (js ''1234 5678 9012'') \<le> 12))"
proof -
  have m: "extractValue (js ''my number is 98765 9876543210'') (Some (js ''mobile''))
      = Some (js ''9876543210'')"
    by (simp add: extract_eval)
  have a: "extractValue (js ''1234 5678 9012'') (Some (js ''aadhar'')) = Some (js ''1234 5678 9012'')"
    by (simp add: extract_eval)
  from extractValue_digit_fields [of "js ''my number is 98765 9876543210''"] m
  have "list_all is_digit (js ''9876543210'') \<and> 1 \<le> length (js ''9876543210'')
      \<and> length (js ''9876543210'') \<le> 10"
    by blast
  moreover have "length (js ''9876543210'') = 10" by (simp add: js_def)
  moreover from extractValue_digit_fields [of "js ''1234 5678 9012''"] a
  have "is_444 (js ''1234 5678 9012'')
        \<or> (list_all is_digit (js ''1234 5678 9012'') \<and> 1 \<le> length (js ''1234 5678 9012'')
            \<and> length (js ''1234 5678 9012'') \<le> 12)"
    by blast
  ultimately show ?thesis using m a by blast
qed

text \<open>The earlier extractor of hooks/useVoiceAssistant.js returns all digits, however many,
  and the empty string rather than "no match".\<close>

lemma extractValue_hook_mobile:
  "extractValue_hook t (Some (js ''mobile'')) =
     (if t = [] then None
      else case first_digit_run 10 t of Some m \<Rightarrow> Some m | None \<Rightarrow> Some (filter is_digit t))"
  by (simp add: extractValue_hook_def rx_d10_def js_match_digit_run js_replace_nondigit
      cong: option.case_cong)

lemma extractValue_hook_mobile_examples:
  "extractValue_hook (js ''12345 67890 12345'') (Some (js ''mobile'')) = Some (js ''123456789012345'')
   \<and> extractValue_hook (js ''stop'') (Some (js ''mobile'')) = Some []"
  by (simp add: extract_eval)

section \<open>The reject list of the generic-text fields\<close>

text \<open>A generic-text field: any field type other than the two digit fields.\<close>

definition generic_field :: "jsstring option \<Rightarrow> bool" where
  "generic_field f = (f \<noteq> Some (js ''mobile'') \<and> f \<noteq> Some (js ''aadhar''))"

text \<open>The cleaned remainder of a transcript after filler-word stripping, in the two
  variants of the extractor.\<close>

definition cleaned :: "jsstring \<Rightarrow> jsstring" where
  "cleaned t = js_trim (js_replace rx_ws [32] (js_replace rx_fillers [] t))"

definition cleaned_hook :: "jsstring \<Rightarrow> jsstring" where
  "cleaned_hook t = js_trim (js_replace (alts (map lit_i filler_words_hook)) [] t)"

lemma extractValue_generic:
  "generic_field f \<Longrightarrow>
   extractValue t f =
     (if t = [] \<or> js_test_whole rx_reject (cleaned t) \<or> length (cleaned t) < 2 then None
      else Some (cleaned t))"
  by (simp add: extractValue_def generic_field_def cleaned_def Let_def)

lemma extractValue_hook_generic:
  "generic_field f \<Longrightarrow>
   extractValue_hook t f =
     (if t = [] \<or> js_test_whole (alts (map lit_i reject_words_hook)) (cleaned_hook t)
         \<or> length (cleaned_hook t) < 3 then None
      else Some (cleaned_hook t))"
  by (simp add: extractValue_hook_def generic_field_def cleaned_hook_def Let_def)

lemma reject_words_rejected:
  "\<forall>w \<in> set reject_words.
     w \<noteq> [] \<and> js_test_whole rx_reject (cleaned (js w))"
  by (simp add: cleaned_def extract_eval)

lemma reject_words_hook_rejected:
  "\<forall>w \<in> set reject_words_hook.
     w \<noteq> [] \<and> js_test_whole (alts (map lit_i reject_words_hook)) (cleaned_hook (js w))"
  by (simp add: cleaned_hook_def extract_eval)

text \<open>
  C8 (as amended).  For every input that is one of the words of the reject list of the
  source (thirteen English words; eleven in hooks/useVoiceAssistant.js), extraction for
  any generic-text field returns "no match"; likewise whenever the cleaned remainder after
  filler-word stripping is shorter than the minimum length (2 code units; 3 in
  hooks/useVoiceAssistant.js).  The list holds no translations.
\<close>

theorem reject_list_no_match:
  "(\<forall>w \<in> set reject_words. \<forall>f. generic_field f \<longrightarrow> extractValue (js w) f = None)
   \<and> (\<forall>t f. generic_field f \<and> length (cleaned t) < 2 \<longrightarrow> extractValue t f = None)
   \<and> (\<forall>w \<in> set reject_words_hook. \<forall>f. generic_field f \<longrightarrow> extractValue_hook (js w) f = None)
   \<and> (\<forall>t f. generic_field f \<and> length (cleaned_hook t) < 3 \<longrightarrow> extractValue_hook t f = None)"
proof (intro conjI ballI allI impI)
  fix w f assume "w \<in> set reject_words" "generic_field f"
  then show "extractValue (js w) f = None"
    using reject_words_rejected by (simp add: extractValue_generic)
next
  fix t f assume "generic_field f \<and> length (cleaned t) < 2"
  then show "extractValue t f = None" by (simp add: extractValue_generic)
next
  fix w f assume "w \<in> set reject_words_hook" "generic_field f"
  then show "extractValue_hook (js w) f = None"
    using reject_words_hook_rejected by (simp add: extractValue_hook_generic)
next
  fix t f assume "generic_field f \<and> length (cleaned_hook t) < 3"
  then show "extractValue_hook t f = None" by (simp add: extractValue_hook_generic)
qed

text \<open>The Hindi word for "no" (in Devanagari, and romanised) is not in the list and is
  extracted as a value.\<close>

theorem translation_not_rejected_counterexample:
  "extractValue [2344, 2361, 2368, 2306] (Some (js ''name'')) = Some [2344, 2361, 2368, 2306]
   \<and> extractValue (js ''nahi'') (Some (js ''name'')) = Some (js ''nahi'')
   \<and> extractValue_hook [2344, 2361, 2368, 2306] (Some (js ''name'')) = Some [2344, 2361, 2368, 2306]"
  by (simp add: extract_eval)

theorem reject_list_no_match_witness:
  "extractValue (js ''stop'') (Some (js ''name'')) = None
   \<and> extractValue (js ''a is'') (Some (js ''address'')) = None
   \<and> extractValue_hook (js ''help'') (Some (js ''name'')) = None
   \<and> extractValue_hook (js ''my name is Om'') (Some (js ''name'')) = None"
proof -
  have g: "generic_field (Some (js ''name''))" "generic_field (Some (js ''address''))"
    by (simp_all add: generic_field_def js_def)
  have w: "''stop'' \<in> set reject_words" "''help'' \<in> set reject_words_hook"
    by (simp_all add: reject_words_def reject_words_hook_def)
  have c: "length (cleaned (js ''a is'')) < 2" "length (cleaned_hook (js ''my name is Om'')) < 3"
    by (simp_all add: cleaned_def cleaned_hook_def extract_eval)
  from reject_list_no_match g w c show ?thesis by blast
qed

section \<open>Configuration (config/conversationQuestions.js)\<close>

text \<open>\<open>SCHEME_FIELD_ORDER\<close>: the field order of each form, by scheme id.\<close>

definition SCHEME_FIELD_ORDER :: "jsstring \<Rightarrow> jsstring list option" where
  "SCHEME_FIELD_ORDER = map_of
     [(js ''pm-kisan'', map js [''state'', ''district'', ''subDistrict'', ''village'', ''name'',
         ''fatherName'', ''gender'', ''aadhar'', ''mobile'', ''dob'', ''bankAccount'', ''ifsc'',
         ''bankName'', ''address'', ''landArea'']),
      (js ''ujjwala'', map js [''name'', ''gender'', ''aadhar'', ''mobile'', ''bankAccount'',
         ''ifsc'', ''bplNumber'', ''address'']),
      (js ''sukanya-samriddhi'', map js [''daughterName'', ''fatherName'', ''motherName'',
         ''daughterDOB'', ''name'', ''aadhar'', ''mobile'', ''address'', ''bankAccount'']),
      (js ''kisan-credit'', map js [''name'', ''fatherName'', ''aadhar'', ''mobile'', ''village'',
         ''district'', ''state'', ''landArea'', ''cropType'', ''bankAccount'', ''ifsc'',
         ''bankName'', ''address'']),
      (js ''ration-card'', map js [''name'', ''fatherName'', ''husbandName'', ''aadhar'',
         ''mobile'', ''address'', ''familyMembers'', ''income'', ''cardType'']),
      (js ''vidhva-sahay'', map js [''name'', ''aadhar'', ''mobile'', ''husbandName'',
         ''deathCertNo'', ''bankAccount'', ''ifsc'', ''address'']),
      (js ''ayushman-bharat'', map js [''name'', ''aadhar'', ''mobile'', ''dob'', ''gender'',
         ''familyMembers'', ''income'', ''existingDiseases'', ''address'']),
      (js ''pm-awas'', map js [''name'', ''fatherName'', ''aadhar'', ''mobile'', ''income'',
         ''category'', ''plotSize'', ''currentAddress''])]"

text \<open>\<open>PHRASES.retry\<close>, \<open>PHRASES.done\<close> and \<open>PHRASES.gotIt\<close>; the Hindi and Gujarati texts as
  UTF-16 code units.\<close>

definition retry_hi :: jsstring where
  "retry_hi =
     [2350, 2366, 2347, 2364, 32, 2325, 2352, 2344, 2366, 44, 32, 2350, 2369, 2333, 2375,
      32, 2336, 2368, 2325, 32, 2360, 2375, 32, 2360, 2369, 2344, 2366, 2312, 32, 2344,
      2361, 2368, 2306, 32, 2342, 2367, 2351, 2366, 2404, 32, 2325, 2381, 2351, 2366, 32,
      2341, 2379, 2337, 2364, 2366, 32, 2332, 2364, 2379, 2352, 32, 2360, 2375, 32, 2324,
      2352, 32, 2347, 2367, 2352, 32, 2360, 2375, 32, 2348, 2379, 2354, 2375, 2306, 2327,
      2375, 63]"

definition retry_gu :: jsstring where
  "retry_gu =
     [2734, 2750, 2731, 32, 2709, 2736, 2763, 44, 32, 2734, 2728, 2759, 32, 2744, 2765,
      2730, 2743, 2765, 2719, 32, 2744, 2690, 2733, 2739, 2765, 2735, 2753, 2690, 32, 2728,
      2745, 2752, 2690, 46, 32, 2716, 2736, 2750, 32, 2734, 2763, 2719, 2759, 2725, 2752,
      32, 2731, 2736, 2752, 2725, 2752, 32, 2709, 2745, 2763, 63]"

definition retry_en :: jsstring where
  "retry_en = js ''Sorry, I didn't hear that clearly. Could you say it again a little louder?''"

definition done_hi :: jsstring where
  "done_hi =
     [2358, 2366, 2348, 2366, 2358, 33, 32, 2360, 2366, 2352, 2368, 32, 2332, 2366, 2344,
      2325, 2366, 2352, 2368, 32, 2350, 2367, 2354, 32, 2327, 2312, 2404, 32, 2348, 2361,
      2369, 2340, 32, 2309, 2330, 2381, 2331, 2366, 32, 2325, 2367, 2351, 2366, 33, 32,
      2309, 2348, 32, 2310, 2346, 2325, 2366, 32, 2360, 2352, 2325, 2366, 2352, 2368, 32,
      2347, 2377, 2352, 2381, 2350, 32, 2340, 2376, 2351, 2366, 2352, 32, 2361, 2376, 2404]"

definition done_gu :: jsstring where
  "done_gu =
     [2742, 2750, 2732, 2750, 2742, 33, 32, 2732, 2727, 2752, 32, 2734, 2750, 2745, 2751,
      2724, 2752, 32, 2734, 2739, 2752, 32, 2711, 2696, 46, 32, 2712, 2723, 2753, 2690, 32,
      2744, 2750, 2736, 2753, 2690, 33, 32, 2745, 2741, 2759, 32, 2724, 2734, 2750, 2736,
      2753, 2690, 32, 2744, 2736, 2709, 2750, 2736, 2752, 32, 2731, 2763, 2736, 2765, 2734,
      32, 2724, 2760, 2735, 2750, 2736, 32, 2715, 2759, 46]"

definition done_en :: jsstring where
  "done_en = js ''Well done! All information collected. Your official government form is ready!''"

definition gotIt_hi_prefix :: jsstring where
  "gotIt_hi_prefix =
     [2348, 2338, 2364, 2367, 2351, 2366, 33, 32, 2350, 2376, 2306, 2344, 2375, 32, 2354,
      2367, 2326, 32, 2354, 2367, 2351, 2366, 32, 8212, 32, 34]"

definition gotIt_hi_suffix :: jsstring where
  "gotIt_hi_suffix =
     [34, 2404]"

definition gotIt_gu_prefix :: jsstring where
  "gotIt_gu_prefix =
     [2744, 2736, 2744, 33, 32, 2734, 2759, 2690, 32, 2738, 2710, 2752, 32, 2738, 2752,
      2727, 2753, 2690, 32, 8212, 32, 34]"

definition gotIt_gu_suffix :: jsstring where
  "gotIt_gu_suffix =
     [34, 46]"

definition gotIt_en_prefix :: jsstring where
  "gotIt_en_prefix =
     [71, 114, 101, 97, 116, 33, 32, 73, 32, 103, 111, 116, 32, 8212, 32, 34]"

text \<open>\<open>PHRASES.x[langCode] || PHRASES.x.hi\<close>: the Hindi text for every language code other
  than \<open>gu\<close> and \<open>en\<close>.\<close>

definition PHRASES_retry :: "jsstring \<Rightarrow> jsstring" where
  "PHRASES_retry langCode =
     (if langCode = js ''en'' then retry_en else if langCode = js ''gu'' then retry_gu
      else retry_hi)"

definition PHRASES_done :: "jsstring \<Rightarrow> jsstring" where
  "PHRASES_done langCode =
     (if langCode = js ''en'' then done_en else if langCode = js ''gu'' then done_gu
      else done_hi)"

definition PHRASES_gotIt :: "jsstring \<Rightarrow> jsstring \<Rightarrow> jsstring" where
  "PHRASES_gotIt langCode val =
     (if langCode = js ''en'' then gotIt_en_prefix @ val @ [34, 46]
      else if langCode = js ''gu'' then gotIt_gu_prefix @ val @ gotIt_gu_suffix
      else gotIt_hi_prefix @ val @ gotIt_hi_suffix)"

text \<open>The help message of the triage greeting in \<open>startConversation\<close>.\<close>

definition help_hi :: jsstring where
  "help_hi =
     [2350, 2376, 2306, 32, 2310, 2346, 2325, 2368, 32, 2325, 2376, 2360, 2375, 32, 2360,
      2361, 2366, 2351, 2340, 2366, 32, 2325, 2352, 32, 2360, 2325, 2340, 2368, 32, 2361,
      2370, 2305, 63, 32, 2310, 2346, 32, 2325, 2367, 2360, 32, 2360, 2352, 2325, 2366,
      2352, 2368, 32, 2351, 2379, 2332, 2344, 2366, 32, 2325, 2375, 32, 2354, 2367, 2319,
      32, 2347, 2377, 2352, 2381, 2350, 32, 2349, 2352, 2344, 2366, 32, 2330, 2366, 2361,
      2340, 2375, 32, 2361, 2376, 2306, 63]"

definition help_gu :: jsstring where
  "help_gu =
     [2745, 2753, 2690, 32, 2694, 2730, 2728, 2752, 32, 2709, 2696, 32, 2736, 2752, 2724,
      2759, 32, 2744, 2745, 2750, 2735, 32, 2709, 2736, 2752, 32, 2742, 2709, 2753, 2690,
      63, 32, 2694, 2730, 32, 2709, 2696, 32, 2744, 2736, 2709, 2750, 2736, 2752, 32, 2735,
      2763, 2716, 2728, 2750, 32, 2734, 2750, 2719, 2759, 32, 2731, 2763, 2736, 2765, 2734,
      32, 2733, 2736, 2741, 2750, 32, 2695, 2714, 2765, 2715, 2763, 32, 2715, 2763, 63]"

definition help_en :: jsstring where
  "help_en = js ''How can I help you? Which government scheme would you like to apply for?''"

section \<open>Session state, browser resources and effects\<close>

text \<open>\<open>AI_STATE\<close>, the string-tagged states of the hook.\<close>

datatype ai_state = IDLE | SPEAKING | LISTENING | PROCESSING | COMPLETED | TRIAGE

datatype sender = AI | USER

text \<open>The \<open>scheme\<close> prop of the hook; a property that is absent is \<open>None\<close>.\<close>

record scheme =
  scheme_id :: "jsstring option"
  scheme_fields :: "jsstring list option"

text \<open>
  The closures passed to \<open>speak\<close> as \<open>onEnd\<close>, one constructor for each closure of the
  source: none; \<open>() => askNextQuestion(n, lang)\<close>; \<open>() => onSchemeChange(data.scheme_id)\<close>.
\<close>

datatype on_end = NoCallback | AskNext nat | SchemeChange "jsstring option"

text \<open>What the caller does when its \<open>await speak(...)\<close> returns: nothing more, or the
  save request and the download timer of the last field (with \<open>newData\<close>).\<close>

datatype after_speak = Return | SaveThenDownload "(jsstring \<times> jsstring) list"

text \<open>
  A call of \<open>speak\<close> is suspended at its request to \<open>/speak\<close>, then at the promise that the
  handlers of its audio element resolve; or it has handed the text to the local
  synthesizer and returned; or it has run to its end.
\<close>

datatype call_phase = Fetching | AwaitingAudio nat | LocalVoice | Settled

record speak_call =
  c_text :: jsstring
  c_lang :: jsstring
  c_onEnd :: on_end
  c_after :: after_speak
  c_phase :: call_phase

text \<open>An \<open>Audio\<close> element made by \<open>speak\<close>: the call whose promise its handlers resolve,
  whether \<open>onended\<close> is still attached, and whether it is playing.\<close>

datatype audio_status = Playing | Paused | Stopped

record audio =
  a_call :: nat
  a_onended :: bool
  a_status :: audio_status

text \<open>A \<open>SpeechSynthesisUtterance\<close> of \<open>fallbackSpeak\<close>, with the call it speaks for.\<close>

record utterance =
  u_call :: nat
  u_text :: jsstring
  u_lang :: jsstring
  u_onEnd :: on_end

text \<open>What the hook does to the outside: the callbacks of its caller, its requests, the
  timer of the download, and the commands to the two audio resources.\<close>

datatype effect =
    FieldUpdate "jsstring option" jsstring
  | SchemeChanged "jsstring option"
  | FetchRecommend jsstring jsstring
  | FetchSpeak nat jsstring jsstring
  | FetchSaveForm jsstring jsstring jsstring "(jsstring \<times> jsstring) list"
  | DownloadTimer
  | AudioPlay nat
  | AudioPause nat
  | SynthCancel
  | SynthSpeak nat jsstring jsstring

text \<open>
  The mutable references of the hook (the React state variables are set together with
  them and are not modelled apart), the three optional callbacks of the caller, the two
  global audio resources \<open>window.currentAudio\<close> and \<open>window.speechSynthesis\<close> (\<open>None\<close> when
  the browser has no synthesizer; otherwise its queue, the head being spoken, and the
  utterances a \<open>cancel()\<close> removed, whose error event may still arrive), the calls of
  \<open>speak\<close> and the requests to \<open>/recommend-scheme\<close> that are in flight, and two logs: the
  effects, and the calls whose completion signal has fired.  Time stamps of the history
  are left out.
\<close>

record world =
  stateRef :: ai_state
  currentStepRef :: nat
  languageRef :: jsstring
  collectedDataRef :: "(jsstring \<times> jsstring) list"
  schemeRef :: "scheme option"
  conversationHistory :: "(sender \<times> jsstring) list"
  onFieldUpdate :: bool
  onSchemeChange :: bool
  onDownload :: bool
  currentAudio :: "nat option"
  audios :: "audio list"
  speechSynthesis :: "utterance list option"
  cancelledUtterances :: "utterance list"
  calls :: "speak_call list"
  pendingRecommend :: nat
  effects :: "effect list"
  completions :: "nat list"

text \<open>\<open>FIELD_QUESTIONS\<close>, by field key and language code, is a parameter: no property below
  depends on the wording of a question.\<close>

type_synonym questions = "jsstring \<Rightarrow> jsstring \<Rightarrow> jsstring option"

section \<open>The hook (components/AssistantWidget.jsx, module with the mutable references)\<close>

definition setStateAndRef :: "ai_state \<Rightarrow> world \<Rightarrow> world" where
  "setStateAndRef s w = w\<lparr>stateRef := s\<rparr>"

definition setStepAndRef :: "nat \<Rightarrow> world \<Rightarrow> world" where
  "setStepAndRef n w = w\<lparr>currentStepRef := n\<rparr>"

definition addHistory :: "sender \<Rightarrow> jsstring \<Rightarrow> world \<Rightarrow> world" where
  "addHistory who text w = w\<lparr>conversationHistory := conversationHistory w @ [(who, text)]\<rparr>"

definition emit :: "effect \<Rightarrow> world \<Rightarrow> world" where
  "emit e w = w\<lparr>effects := effects w @ [e]\<rparr>"

text \<open>\<open>languageRef.current.split('-')[0]\<close>\<close>

definition langCode :: "world \<Rightarrow> jsstring" where
  "langCode w = takeWhile (\<lambda>c. c \<noteq> 45) (languageRef w)"

definition getFieldOrder :: "world \<Rightarrow> jsstring list" where
  "getFieldOrder w =
     (case schemeRef w of
        None \<Rightarrow> []
      | Some s \<Rightarrow>
          (case (case scheme_id s of None \<Rightarrow> None | Some i \<Rightarrow> SCHEME_FIELD_ORDER i) of
             Some fs \<Rightarrow> fs
           | None \<Rightarrow> (case scheme_fields s of Some fs \<Rightarrow> fs | None \<Rightarrow> [])))"

text \<open>\<open>a || b\<close> on a table entry that may be absent or the empty string.\<close>

definition truthy :: "jsstring option \<Rightarrow> bool" where
  "truthy x = (case x of None \<Rightarrow> False | Some s \<Rightarrow> s \<noteq> [])"

definition getQuestion :: "questions \<Rightarrow> jsstring \<Rightarrow> world \<Rightarrow> jsstring" where
  "getQuestion Q fieldKey w =
     (if truthy (Q fieldKey (langCode w)) then the (Q fieldKey (langCode w))
      else if truthy (Q fieldKey (js ''hi'')) then the (Q fieldKey (js ''hi''))
      else js ''Please tell me your '' @ fieldKey)"

text \<open>The part of \<open>speak\<close> after the test of the text, up to its request: stop the audio
  that is registered, cancel the synthesizer, set the state, write the history, send the
  request.  The new call has the next free index.\<close>

definition stopCurrentAudio :: "world \<Rightarrow> world" where
  "stopCurrentAudio w =
     (case currentAudio w of
        None \<Rightarrow> w
      | Some a \<Rightarrow>
          emit (AudioPause a)
            (w\<lparr>audios := (audios w)[a := (audios w ! a)\<lparr>a_status :=
                   (if a_status (audios w ! a) = Playing then Paused else a_status (audios w ! a)),
                   a_onended := False\<rparr>],
               currentAudio := None\<rparr>))"

definition synthCancel :: "world \<Rightarrow> world" where
  "synthCancel w =
     (case speechSynthesis w of
        None \<Rightarrow> w
      | Some q \<Rightarrow>
          emit SynthCancel
            (w\<lparr>speechSynthesis := Some [], cancelledUtterances := cancelledUtterances w @ q\<rparr>))"

definition startRequest :: "jsstring \<Rightarrow> on_end \<Rightarrow> after_speak \<Rightarrow> world \<Rightarrow> world" where
  "startRequest text onEnd after w =
     (let w1 = addHistory AI text (setStateAndRef SPEAKING (synthCancel (stopCurrentAudio w)));
          n = length (calls w1);
          lang = languageRef w1
      in emit (FetchSpeak n text lang)
           (w1\<lparr>calls := calls w1 @
              [\<lparr>c_text = text, c_lang = lang, c_onEnd = onEnd, c_after = after,
                c_phase = Fetching\<rparr>]\<rparr>))"

text \<open>The caller's code after \<open>await speak(...)\<close>.\<close>

definition schemeIdOrUnknown :: "world \<Rightarrow> jsstring" where
  "schemeIdOrUnknown w =
     (case schemeRef w of
        None \<Rightarrow> js ''unknown''
      | Some s \<Rightarrow> (if truthy (scheme_id s) then the (scheme_id s) else js ''unknown''))"

definition valueOrEmpty :: "(jsstring \<times> jsstring) list \<Rightarrow> jsstring \<Rightarrow> jsstring" where
  "valueOrEmpty d k = (case map_of d k of None \<Rightarrow> [] | Some v \<Rightarrow> v)"

fun run_after :: "after_speak \<Rightarrow> world \<Rightarrow> world" where
  "run_after Return w = w"
| "run_after (SaveThenDownload newData) w =
     (let w1 = emit (FetchSaveForm (schemeIdOrUnknown w) (valueOrEmpty newData (js ''mobile''))
                       (valueOrEmpty newData (js ''aadhar'')) newData) w
      in if onDownload w1 then emit DownloadTimer w1 else w1)"

text \<open>\<open>speak\<close>, \<open>askNextQuestion\<close> and the call of an \<open>onEnd\<close> closure call each other; the
  closure that \<open>askNextQuestion\<close> passes on is none, which ends the recursion.\<close>

fun on_end_rank :: "on_end \<Rightarrow> nat" where
  "on_end_rank NoCallback = 0"
| "on_end_rank (AskNext n) = 2"
| "on_end_rank (SchemeChange i) = 2"

function speak :: "questions \<Rightarrow> jsstring \<Rightarrow> on_end \<Rightarrow> after_speak \<Rightarrow> world \<Rightarrow> world"
  and run_onEnd :: "questions \<Rightarrow> on_end \<Rightarrow> world \<Rightarrow> world"
  and askNextQuestion :: "questions \<Rightarrow> nat \<Rightarrow> world \<Rightarrow> world"
where
  "speak Q text onEnd after w =
     (if text = [] then run_after after (run_onEnd Q onEnd w)
      else startRequest text onEnd after w)"
| "run_onEnd Q NoCallback w = w"
| "run_onEnd Q (AskNext n) w = askNextQuestion Q n w"
| "run_onEnd Q (SchemeChange i) w = (if onSchemeChange w then emit (SchemeChanged i) w else w)"
| "askNextQuestion Q stepIndex w =
     (if stepIndex \<ge> length (getFieldOrder w) then w
      else speak Q (getQuestion Q (getFieldOrder w ! stepIndex) w) NoCallback Return w)"
  by pat_completeness auto
termination
  by (relation "measure (\<lambda>x. case x of
        Inl (Q, text, onEnd, after, w) \<Rightarrow> 2 * on_end_rank onEnd + 1
      | Inr (Inl (Q, onEnd, w)) \<Rightarrow> 2 * on_end_rank onEnd
      | Inr (Inr (Q, n, w)) \<Rightarrow> 2)") auto

declare speak.simps [simp del] askNextQuestion.simps [simp del]

text \<open>The end of an utterance, on either path: \<open>setStateAndRef(AI_STATE.LISTENING);
  if (onEnd) onEnd();\<close>.  The call is settled and its completion is logged.\<close>

definition set_phase :: "nat \<Rightarrow> call_phase \<Rightarrow> world \<Rightarrow> world" where
  "set_phase n ph w = w\<lparr>calls := (calls w)[n := (calls w ! n)\<lparr>c_phase := ph\<rparr>]\<rparr>"

definition complete :: "questions \<Rightarrow> nat \<Rightarrow> on_end \<Rightarrow> world \<Rightarrow> world" where
  "complete Q n onEnd w =
     run_onEnd Q onEnd
       ((setStateAndRef LISTENING (set_phase n Settled w))\<lparr>completions := completions w @ [n]\<rparr>)"

text \<open>\<open>fallbackSpeak(text, lang, onEnd)\<close>, called by the call \<open>n\<close> of \<open>speak\<close>.  The choice of a
  voice is left out.\<close>

definition fallbackSpeak ::
  "questions \<Rightarrow> nat \<Rightarrow> jsstring \<Rightarrow> jsstring \<Rightarrow> on_end \<Rightarrow> world \<Rightarrow> world" where
  "fallbackSpeak Q n text lang onEnd w =
     (case speechSynthesis w of
        None \<Rightarrow> complete Q n onEnd w
      | Some q \<Rightarrow>
          (let w1 = synthCancel w;
               u = \<lparr>u_call = n, u_text = text,
                    u_lang = (if lang = [] then js ''hi-IN'' else lang), u_onEnd = onEnd\<rparr>
           in emit (SynthSpeak n text (u_lang u))
                (set_phase n LocalVoice
                   (w1\<lparr>speechSynthesis := Some (the (speechSynthesis w1) @ [u])\<rparr>))))"

text \<open>The reply to the request of \<open>speak\<close>: a network error, a status that is not ok, an
  empty blob, or audio.  With audio, the element is made, registered and played, and the
  call waits for the promise; otherwise the \<open>catch\<close> leads to \<open>fallbackSpeak\<close> and the call
  returns to its caller.\<close>

datatype speak_reply = NetworkError | NotOk | EmptyBlob | AudioBlob

definition speakReply :: "questions \<Rightarrow> nat \<Rightarrow> speak_reply \<Rightarrow> world \<Rightarrow> world" where
  "speakReply Q n r w =
     (if n < length (calls w) \<and> c_phase (calls w ! n) = Fetching then
        (let c = calls w ! n in
         case r of
           AudioBlob \<Rightarrow>
             (let a = length (audios w)
              in emit (AudioPlay a)
                   ((set_phase n (AwaitingAudio a) w)
                      \<lparr>audios := audios w @ [\<lparr>a_call = n, a_onended = True, a_status = Playing\<rparr>],
                       currentAudio := Some a\<rparr>))
         | _ \<Rightarrow> run_after (c_after c) (fallbackSpeak Q n (c_text c) (c_lang c) (c_onEnd c) w))
      else w)"

text \<open>\<open>resolve()\<close> of the promise of call \<open>n\<close>; a promise resolves once.  Then the rest of
  \<open>speak\<close> runs, and the caller that awaited it.\<close>

definition resolve :: "questions \<Rightarrow> nat \<Rightarrow> world \<Rightarrow> world" where
  "resolve Q n w =
     (if n < length (calls w) then
        (case c_phase (calls w ! n) of
           AwaitingAudio a \<Rightarrow>
             run_after (c_after (calls w ! n)) (complete Q n (c_onEnd (calls w ! n)) w)
         | _ \<Rightarrow> w)
      else w)"

text \<open>The three handlers of an audio element.  Each ends with \<open>window.currentAudio = null;
  resolve()\<close>.  The \<open>ended\<close> event comes to an element that is playing, and finds the
  handler unless a later \<open>speak\<close> has detached it; \<open>onerror\<close> and the handler of the
  rejected \<open>play()\<close> stay attached and run whatever the state of the element.\<close>

definition set_status :: "nat \<Rightarrow> audio_status \<Rightarrow> world \<Rightarrow> world" where
  "set_status a st w = w\<lparr>audios := (audios w)[a := (audios w ! a)\<lparr>a_status := st\<rparr>]\<rparr>"

definition audioEnded :: "questions \<Rightarrow> nat \<Rightarrow> world \<Rightarrow> world" where
  "audioEnded Q a w =
     (if a < length (audios w) \<and> a_status (audios w ! a) = Playing then
        (if a_onended (audios w ! a)
         then resolve Q (a_call (audios w ! a)) ((set_status a Stopped w)\<lparr>currentAudio := None\<rparr>)
         else set_status a Stopped w)
      else w)"

definition audioError :: "questions \<Rightarrow> nat \<Rightarrow> world \<Rightarrow> world" where
  "audioError Q a w =
     (if a < length (audios w) then
        resolve Q (a_call (audios w ! a)) ((set_status a Stopped w)\<lparr>currentAudio := None\<rparr>)
      else w)"

definition playRejected :: "questions \<Rightarrow> nat \<Rightarrow> world \<Rightarrow> world" where
  "playRejected Q a w =
     (if a < length (audios w) then
        resolve Q (a_call (audios w ! a)) ((set_status a Stopped w)\<lparr>currentAudio := None\<rparr>)
      else w)"

text \<open>The two handlers of an utterance (\<open>onend\<close>, \<open>onerror\<close>) do the same.  The event comes
  for the utterance being spoken, or as the error event of one that was cancelled.\<close>

definition utteranceDone :: "questions \<Rightarrow> world \<Rightarrow> world" where
  "utteranceDone Q w =
     (case speechSynthesis w of
        Some (u # q) \<Rightarrow> complete Q (u_call u) (u_onEnd u) (w\<lparr>speechSynthesis := Some q\<rparr>)
      | _ \<Rightarrow> w)"

definition cancelledUtteranceError :: "questions \<Rightarrow> nat \<Rightarrow> world \<Rightarrow> world" where
  "cancelledUtteranceError Q i w =
     (if i < length (cancelledUtterances w) then
        complete Q (u_call (cancelledUtterances w ! i)) (u_onEnd (cancelledUtterances w ! i))
          (w\<lparr>cancelledUtterances :=
               take i (cancelledUtterances w) @ drop (Suc i) (cancelledUtterances w)\<rparr>)
      else w)"

text \<open>\<open>startConversation(lang)\<close>.  The text of \<open>getDynamicGreeting(lang)\<close> depends on the hour
  of the day and is an argument.\<close>

definition helpMsg :: "jsstring \<Rightarrow> jsstring" where
  "helpMsg lang =
     (if lang = js ''hi-IN'' then help_hi else if lang = js ''gu-IN'' then help_gu else help_en)"

definition startConversation :: "questions \<Rightarrow> jsstring \<Rightarrow> jsstring \<Rightarrow> world \<Rightarrow> world" where
  "startConversation Q lang greeting w =
     (let w1 = w\<lparr>languageRef := lang, conversationHistory := [], currentStepRef := 0,
                collectedDataRef := []\<rparr>
      in if schemeRef w1 = None then
           speak Q (greeting @ [32] @ helpMsg lang) NoCallback Return (setStateAndRef TRIAGE w1)
         else speak Q greeting (AskNext 0) Return w1)"

text \<open>\<open>fields[step]\<close> is \<open>undefined\<close> past the end; as a computed property key \<open>undefined\<close>
  is the string "undefined".\<close>

definition nth_opt :: "'a list \<Rightarrow> nat \<Rightarrow> 'a option" where
  "nth_opt xs i = (if i < length xs then Some (xs ! i) else None)"

definition property_key :: "jsstring option \<Rightarrow> jsstring" where
  "property_key k = (case k of None \<Rightarrow> js ''undefined'' | Some s \<Rightarrow> s)"

text \<open>\<open>processResponse(transcript)\<close> up to its first \<open>await\<close>: the request of the triage
  branch, or the call of \<open>speak\<close> of the form-filling branch.\<close>

definition processResponse :: "questions \<Rightarrow> jsstring \<Rightarrow> world \<Rightarrow> world" where
  "processResponse Q transcript w =
     (if transcript = [] then w
      else
        (let currentState = stateRef w;
             w1 = addHistory USER transcript (setStateAndRef PROCESSING w)
         in if currentState = TRIAGE \<or> currentState = IDLE then
              (emit (FetchRecommend transcript (languageRef w1)) w1)
                \<lparr>pendingRecommend := pendingRecommend w1 + 1\<rparr>
            else
              (let fields = getFieldOrder w1;
                   step = currentStepRef w1;
                   fieldKey = nth_opt fields step;
                   value = extractValue transcript fieldKey
               in if value \<noteq> None \<and> length (the value) \<ge> 1 then
                    (let newData = AList.update (property_key fieldKey) (the value)
                           (collectedDataRef w1);
                         w2 = w1\<lparr>collectedDataRef := newData\<rparr>;
                         w3 = (if onFieldUpdate w2 then emit (FieldUpdate fieldKey (the value)) w2
                               else w2);
                         ack = PHRASES_gotIt (langCode w3) (the value);
                         nextStep = step + 1
                     in if nextStep < length fields then
                          speak Q ack (AskNext nextStep) Return (setStepAndRef nextStep w3)
                        else
                          speak Q (PHRASES_done (langCode w3)) NoCallback
                            (SaveThenDownload newData) (setStateAndRef COMPLETED w3))
                  else
                    speak Q (PHRASES_retry (langCode w1)) (AskNext step) Return w1)))"

text \<open>The reply to the request of the triage branch: the request or the reading of its
  body fails with some error, or the body carries \<open>success\<close>, \<open>message\<close> and \<open>scheme_id\<close>.\<close>

datatype recommend_result =
    RequestFailed jsstring
  | Recommendation bool jsstring "jsstring option"

definition recommendReply :: "questions \<Rightarrow> recommend_result \<Rightarrow> world \<Rightarrow> world" where
  "recommendReply Q r w =
     (if pendingRecommend w = 0 then w
      else
        (let w0 = w\<lparr>pendingRecommend := pendingRecommend w - 1\<rparr>
         in case r of
              Recommendation success message sid \<Rightarrow>
                if success then speak Q message (SchemeChange sid) Return w0
                else speak Q (if message \<noteq> [] then message else PHRASES_retry (langCode w0))
                       NoCallback Return w0
            | RequestFailed e \<Rightarrow> speak Q (PHRASES_retry (langCode w0)) NoCallback Return w0))"

text \<open>The events that drive the hook: the calls of its two actions, a render with a new
  scheme prop, and the replies and media events of the browser.  Each is handled to its
  end before the next.\<close>

datatype event =
    StartConversation jsstring jsstring
  | Transcript jsstring
  | Render "scheme option"
  | RecommendReply recommend_result
  | SpeakReply nat speak_reply
  | PlayRejected nat
  | AudioEnded nat
  | AudioError nat
  | UtteranceEnd
  | UtteranceError
  | CancelledUtteranceError nat

fun handle :: "questions \<Rightarrow> world \<Rightarrow> event \<Rightarrow> world" where
  "handle Q w (StartConversation lang greeting) = startConversation Q lang greeting w"
| "handle Q w (Transcript t) = processResponse Q t w"
| "handle Q w (Render s) = w\<lparr>schemeRef := s\<rparr>"
| "handle Q w (RecommendReply r) = recommendReply Q r w"
| "handle Q w (SpeakReply n r) = speakReply Q n r w"
| "handle Q w (PlayRejected a) = playRejected Q a w"
| "handle Q w (AudioEnded a) = audioEnded Q a w"
| "handle Q w (AudioError a) = audioError Q a w"
| "handle Q w UtteranceEnd = utteranceDone Q w"
| "handle Q w UtteranceError = utteranceDone Q w"
| "handle Q w (CancelledUtteranceError i) = cancelledUtteranceError Q i w"

definition run :: "questions \<Rightarrow> world \<Rightarrow> event list \<Rightarrow> world" where
  "run Q w es = foldl (handle Q) w es"

text \<open>The hook as first rendered with a scheme prop and the three callbacks, in a browser
  with or without a synthesizer.\<close>

definition initial :: "scheme option \<Rightarrow> bool \<Rightarrow> world" where
  "initial s synth =
     \<lparr>stateRef = IDLE, currentStepRef = 0, languageRef = js ''hi-IN'', collectedDataRef = [],
      schemeRef = s, conversationHistory = [], onFieldUpdate = True, onSchemeChange = True,
      onDownload = True, currentAudio = None, audios = [],
      speechSynthesis = (if synth then Some [] else None), cancelledUtterances = [],
      calls = [], pendingRecommend = 0, effects = [], completions = []\<rparr>"

section \<open>The branches of \<open>processResponse\<close>\<close>

text \<open>The form-filling branch is taken in every state but \<open>TRIAGE\<close> and \<open>IDLE\<close>; the spec's
  mode \<open>Collecting\<close> is this branch with a scheme selected.\<close>

definition form_filling :: "world \<Rightarrow> bool" where
  "form_filling w = (stateRef w \<noteq> TRIAGE \<and> stateRef w \<noteq> IDLE)"

definition currentFieldKey :: "world \<Rightarrow> jsstring option" where
  "currentFieldKey w = nth_opt (getFieldOrder w) (currentStepRef w)"

text \<open>\<open>value && value.length >= 1\<close> for the transcript and the current field.\<close>

definition extracted :: "jsstring \<Rightarrow> world \<Rightarrow> bool" where
  "extracted t w =
     (case extractValue t (currentFieldKey w) of None \<Rightarrow> False | Some v \<Rightarrow> v \<noteq> [])"

definition is_restart :: "event \<Rightarrow> bool" where
  "is_restart e = (case e of StartConversation lang greeting \<Rightarrow> True | _ \<Rightarrow> False)"

definition is_field_update :: "effect \<Rightarrow> bool" where
  "is_field_update e = (case e of FieldUpdate k v \<Rightarrow> True | _ \<Rightarrow> False)"

definition is_scheme_change :: "effect \<Rightarrow> bool" where
  "is_scheme_change e = (case e of SchemeChanged i \<Rightarrow> True | _ \<Rightarrow> False)"

definition is_save :: "effect \<Rightarrow> bool" where
  "is_save e = (case e of FetchSaveForm s m a d \<Rightarrow> True | _ \<Rightarrow> False)"

definition is_download :: "effect \<Rightarrow> bool" where
  "is_download e = (case e of DownloadTimer \<Rightarrow> True | _ \<Rightarrow> False)"

section \<open>The ways an utterance ends\<close>

text \<open>The effects on the two audio resources and the request to \<open>/speak\<close>.\<close>

definition is_speech_effect :: "effect \<Rightarrow> bool" where
  "is_speech_effect e =
     (case e of
        FetchSpeak n t l \<Rightarrow> True
      | AudioPlay a \<Rightarrow> True
      | AudioPause a \<Rightarrow> True
      | SynthCancel \<Rightarrow> True
      | SynthSpeak n t l \<Rightarrow> True
      | _ \<Rightarrow> False)"

text \<open>
  The event sequences that carry the call \<open>n\<close> of \<open>speak\<close>, whose audio element would be
  \<open>a\<close>, from its request to its end: the audio is played and ends, fails or is refused by
  the browser; or the request fails in one of three ways and the local synthesizer speaks
  to an end or an error (with no synthesizer the second event finds nothing to do).
\<close>

definition utterance_runs :: "nat \<Rightarrow> nat \<Rightarrow> event list list" where
  "utterance_runs n a =
     [[SpeakReply n AudioBlob, AudioEnded a],
      [SpeakReply n AudioBlob, AudioError a],
      [SpeakReply n AudioBlob, PlayRejected a],
      [SpeakReply n NetworkError, UtteranceEnd],
      [SpeakReply n NetworkError, UtteranceError],
      [SpeakReply n NotOk, UtteranceEnd],
      [SpeakReply n NotOk, UtteranceError],
      [SpeakReply n EmptyBlob, UtteranceEnd],
      [SpeakReply n EmptyBlob, UtteranceError]]"

text \<open>The effects other than those of the speech output.\<close>

definition outward :: "effect list \<Rightarrow> effect list" where
  "outward es = filter (\<lambda>e. \<not> is_speech_effect e) es"

text \<open>The effects of the code that follows an awaited \<open>speak\<close>.\<close>

definition after_effects :: "after_speak \<Rightarrow> world \<Rightarrow> effect list" where
  "after_effects aft w =
     (case aft of
        Return \<Rightarrow> []
      | SaveThenDownload d \<Rightarrow>
          FetchSaveForm (schemeIdOrUnknown w) (valueOrEmpty d (js ''mobile''))
            (valueOrEmpty d (js ''aadhar'')) d
          # (if onDownload w then [DownloadTimer] else []))"

text \<open>What a call of \<open>speak\<close> stops before its request: the audio element registered as
  current, and the queue of the local synthesizer when the browser has one.\<close>

definition stop_effects :: "world \<Rightarrow> effect list" where
  "stop_effects w =
     (case currentAudio w of None \<Rightarrow> [] | Some a \<Rightarrow> [AudioPause a])
     @ (case speechSynthesis w of None \<Rightarrow> [] | Some q \<Rightarrow> [SynthCancel])"

text \<open>The sound of the call of \<open>speak\<close> that is made in \<open>w\<close> with the text \<open>t\<close> and whose
  events are \<open>es\<close>: \<open>audio.play()\<close> on the blob of the backend; or, when the request failed,
  \<open>speechSynthesis.speak\<close> of the text, after the \<open>cancel()\<close> of \<open>fallbackSpeak\<close>; or nothing,
  when the request failed in a browser with no synthesizer.\<close>

definition utterance_effects :: "world \<Rightarrow> jsstring \<Rightarrow> event list \<Rightarrow> effect list" where
  "utterance_effects w t es =
     (if hd es = SpeakReply (length (calls w)) AudioBlob then [AudioPlay (length (audios w))]
      else (case speechSynthesis w of
              None \<Rightarrow> []
            | Some q \<Rightarrow>
                [SynthCancel,
                 SynthSpeak (length (calls w)) t
                   (if languageRef w = [] then js ''hi-IN'' else languageRef w)]))"

section \<open>Forms of pages/FormFiller.jsx and test worlds\<close>

text \<open>Two of the scheme objects of the page that uses the hook (they carry no \<open>id\<close>, so
  their own \<open>fields\<close> give the order), a table of questions with no entry, and the hook
  listening at a step of a form.\<close>

definition pm_awas :: scheme where
  "pm_awas = \<lparr>scheme_id = None, scheme_fields = Some (map js [''name'', ''fatherName'',
     ''aadhar'', ''mobile'', ''income'', ''currentAddress'', ''plotSize'', ''category''])\<rparr>"

definition no_questions :: questions where
  "no_questions = (\<lambda>fieldKey langCode. None)"

definition listening_at :: "scheme \<Rightarrow> nat \<Rightarrow> world" where
  "listening_at s n = (initial (Some s) True)\<lparr>stateRef := LISTENING, currentStepRef := n\<rparr>"

section \<open>The session and the turns of a dialogue\<close>

text \<open>The fields of the session proper: none of the functions of the speech output
  writes them.\<close>

definition session_of ::
  "world \<Rightarrow> nat \<times> jsstring \<times> (jsstring \<times> jsstring) list \<times> scheme option \<times> bool \<times> bool \<times> bool" where
  "session_of w =
     (currentStepRef w, languageRef w, collectedDataRef w, schemeRef w,
      onFieldUpdate w, onSchemeChange w, onDownload w)"

text \<open>The events of one answer when every utterance is played from the backend to its
  end: the transcript, the acknowledgement and the next question; for the last field, the
  transcript and the closing message.  The calls of \<open>speak\<close> and the audio elements are
  then numbered alike.\<close>

definition answer :: "nat \<Rightarrow> jsstring \<Rightarrow> event list" where
  "answer n t = [Transcript t, SpeakReply n AudioBlob, AudioEnded n,
                 SpeakReply (Suc n) AudioBlob, AudioEnded (Suc n)]"

definition last_answer :: "nat \<Rightarrow> jsstring \<Rightarrow> event list" where
  "last_answer n t = [Transcript t, SpeakReply n AudioBlob, AudioEnded n]"

text \<open>The hook listening for the answer to field \<open>i\<close> of the form \<open>pm_awas\<close>, in Hindi, with
  the data \<open>d\<close>, after \<open>n\<close> calls of \<open>speak\<close> and the reports \<open>fu\<close> to its caller.\<close>

definition at_step ::
  "world \<Rightarrow> nat \<Rightarrow> (jsstring \<times> jsstring) list \<Rightarrow> nat \<Rightarrow> effect list \<Rightarrow> bool" where
  "at_step w i d n fu =
     (stateRef w = LISTENING
      \<and> session_of w = (i, js ''hi-IN'', d, Some pm_awas, True, True, True)
      \<and> length (calls w) = n \<and> length (audios w) = n
      \<and> outward (effects w) = fu)"


section \<open>Playback refused by the browser\<close>

definition is_synth_speak :: "effect \<Rightarrow> bool" where
  "is_synth_speak e = (case e of SynthSpeak n t l \<Rightarrow> True | _ \<Rightarrow> False)"

section \<open>Active utterances and completion signals\<close>

text \<open>The audio elements that are playing, and the utterances in the queue of the local
  synthesizer (its head is being spoken).\<close>

definition playing :: "world \<Rightarrow> nat list" where
  "playing w = filter (\<lambda>a. a_status (audios w ! a) = Playing) [0..<length (audios w)]"

definition queue :: "world \<Rightarrow> utterance list" where
  "queue w = (case speechSynthesis w of None \<Rightarrow> [] | Some q \<Rightarrow> q)"

text \<open>
  What holds of the calls of \<open>speak\<close> in every state the hook can reach: a call whose
  completion has fired is settled and has fired once; an utterance that the synthesizer
  still holds, or has been cancelled with its error event outstanding, belongs to a call
  that waits for it, and no two of them to the same call.
\<close>

definition calls_inv :: "world \<Rightarrow> bool" where
  "calls_inv w =
     (distinct (completions w)
      \<and> list_all (\<lambda>n. n < length (calls w) \<and> c_phase (calls w ! n) = Settled) (completions w)
      \<and> list_all (\<lambda>u. u_call u < length (calls w) \<and> c_phase (calls w ! u_call u) = LocalVoice)
           (queue w @ cancelledUtterances w)
      \<and> distinct (map u_call (queue w @ cancelledUtterances w)))"
section \<open>The phrases are not empty\<close>

lemma PHRASES_retry_nonempty: "PHRASES_retry lc \<noteq> []"
  by (simp add: PHRASES_retry_def retry_hi_def retry_gu_def retry_en_def js_def)

lemma PHRASES_done_nonempty: "PHRASES_done lc \<noteq> []"
  by (simp add: PHRASES_done_def done_hi_def done_gu_def done_en_def js_def)

lemma PHRASES_gotIt_nonempty: "PHRASES_gotIt lc v \<noteq> []"
  by (simp add: PHRASES_gotIt_def gotIt_hi_prefix_def gotIt_gu_prefix_def gotIt_en_prefix_def)

lemma getQuestion_nonempty: "getQuestion Q k w \<noteq> []"
  by (auto simp: getQuestion_def truthy_def js_def split: option.splits)

lemma speak_nonempty: "t \<noteq> [] \<Longrightarrow> speak Q t k a w = startRequest t k a w"
  by (simp add: speak.simps)

lemma speak_empty: "speak Q [] k a w = run_after a (run_onEnd Q k w)"
  by (simp add: speak.simps)

section \<open>What the parts of \<open>speak\<close> change\<close>

lemma session_of_simps [simp]:
  "session_of (setStateAndRef s w) = session_of w"
  "session_of (addHistory who t w) = session_of w"
  "session_of (emit e w) = session_of w"
  "session_of (set_phase n ph w) = session_of w"
  "session_of (set_status a st w) = session_of w"
  "session_of (w\<lparr>stateRef := s\<rparr>) = session_of w"
  "session_of (w\<lparr>conversationHistory := h\<rparr>) = session_of w"
  "session_of (w\<lparr>currentAudio := ca\<rparr>) = session_of w"
  "session_of (w\<lparr>audios := au\<rparr>) = session_of w"
  "session_of (w\<lparr>speechSynthesis := q\<rparr>) = session_of w"
  "session_of (w\<lparr>cancelledUtterances := cu\<rparr>) = session_of w"
  "session_of (w\<lparr>calls := cs\<rparr>) = session_of w"
  "session_of (w\<lparr>pendingRecommend := pr\<rparr>) = session_of w"
  "session_of (w\<lparr>effects := es\<rparr>) = session_of w"
  "session_of (w\<lparr>completions := cm\<rparr>) = session_of w"
  by (simp_all add: session_of_def setStateAndRef_def addHistory_def emit_def set_phase_def
      set_status_def)

lemma session_of_stopCurrentAudio [simp]: "session_of (stopCurrentAudio w) = session_of w"
  by (simp add: stopCurrentAudio_def split: option.splits)

lemma session_of_synthCancel [simp]: "session_of (synthCancel w) = session_of w"
  by (simp add: synthCancel_def split: option.splits)

lemma session_of_startRequest [simp]: "session_of (startRequest t k a w) = session_of w"
  by (simp add: startRequest_def Let_def)

lemma session_of_run_after [simp]: "session_of (run_after a w) = session_of w"
  by (cases a) (simp_all add: Let_def)

lemma getFieldOrder_session: "session_of w' = session_of w \<Longrightarrow> getFieldOrder w' = getFieldOrder w"
  by (simp add: session_of_def getFieldOrder_def)

lemma session_of_speak_family:
  "session_of (speak Q t k a w) = session_of w"
  "session_of (run_onEnd Q k w) = session_of w"
  "session_of (askNextQuestion Q n w) = session_of w"
  by (induction Q t k a w and Q k w and Q n w rule: speak_run_onEnd_askNextQuestion.induct)
     (simp_all add: speak.simps askNextQuestion.simps)

declare session_of_speak_family [simp]

lemma session_of_complete [simp]: "session_of (complete Q n k w) = session_of w"
  by (simp add: complete_def)

lemma session_of_fallbackSpeak [simp]: "session_of (fallbackSpeak Q n t l k w) = session_of w"
  by (simp add: fallbackSpeak_def Let_def split: option.splits)

lemma session_of_resolve [simp]: "session_of (resolve Q n w) = session_of w"
  by (simp add: resolve_def split: call_phase.splits)

lemma session_of_speakReply [simp]: "session_of (speakReply Q n r w) = session_of w"
  by (simp add: speakReply_def Let_def split: speak_reply.splits)

lemma session_of_audio_events [simp]:
  "session_of (audioEnded Q a w) = session_of w"
  "session_of (audioError Q a w) = session_of w"
  "session_of (playRejected Q a w) = session_of w"
  by (simp_all add: audioEnded_def audioError_def playRejected_def)

lemma session_of_utterance_events [simp]:
  "session_of (utteranceDone Q w) = session_of w"
  "session_of (cancelledUtteranceError Q i w) = session_of w"
  by (simp_all add: utteranceDone_def cancelledUtteranceError_def split: option.splits list.splits)

lemma session_of_recommendReply [simp]: "session_of (recommendReply Q r w) = session_of w"
  by (simp add: recommendReply_def Let_def split: recommend_result.splits)

lemma session_fields:
  "session_of w' = session_of w \<Longrightarrow>
   currentStepRef w' = currentStepRef w \<and> languageRef w' = languageRef w
   \<and> collectedDataRef w' = collectedDataRef w \<and> schemeRef w' = schemeRef w
   \<and> onFieldUpdate w' = onFieldUpdate w \<and> onSchemeChange w' = onSchemeChange w
   \<and> onDownload w' = onDownload w"
  by (simp add: session_of_def)

lemma getFieldOrder_upd [simp]:
  "getFieldOrder (w\<lparr>stateRef := s\<rparr>) = getFieldOrder w"
  "getFieldOrder (w\<lparr>conversationHistory := h\<rparr>) = getFieldOrder w"
  "getFieldOrder (w\<lparr>collectedDataRef := d\<rparr>) = getFieldOrder w"
  "getFieldOrder (w\<lparr>currentStepRef := n\<rparr>) = getFieldOrder w"
  "getFieldOrder (w\<lparr>effects := es\<rparr>) = getFieldOrder w"
  by (simp_all add: getFieldOrder_def)

lemma langCode_upd [simp]:
  "langCode (w\<lparr>stateRef := s\<rparr>) = langCode w"
  "langCode (w\<lparr>conversationHistory := h\<rparr>) = langCode w"
  "langCode (w\<lparr>collectedDataRef := d\<rparr>) = langCode w"
  "langCode (w\<lparr>currentStepRef := n\<rparr>) = langCode w"
  "langCode (w\<lparr>effects := es\<rparr>) = langCode w"
  by (simp_all add: langCode_def)

lemma length_ge_1: "(Suc 0 \<le> length v) = (v \<noteq> [])"
  by (cases v) simp_all

lemmas processResponse_unfold =
  processResponse_def form_filling_def currentFieldKey_def extracted_def Let_def
  addHistory_def setStateAndRef_def setStepAndRef_def emit_def length_ge_1
  PHRASES_retry_nonempty PHRASES_done_nonempty PHRASES_gotIt_nonempty speak_nonempty

lemma processResponse_empty: "processResponse Q [] w = w"
  by (simp add: processResponse_def)

lemma processResponse_triage:
  "t \<noteq> [] \<Longrightarrow> \<not> form_filling w \<Longrightarrow>
   processResponse Q t w =
     (emit (FetchRecommend t (languageRef w)) (addHistory USER t (setStateAndRef PROCESSING w)))
       \<lparr>pendingRecommend := pendingRecommend w + 1\<rparr>"
  by (simp add: processResponse_unfold)

lemma processResponse_retry:
  "t \<noteq> [] \<Longrightarrow> form_filling w \<Longrightarrow> \<not> extracted t w \<Longrightarrow>
   processResponse Q t w =
     startRequest (PHRASES_retry (langCode w)) (AskNext (currentStepRef w)) Return
       (addHistory USER t (setStateAndRef PROCESSING w))"
  by (simp add: processResponse_unfold split: option.splits)

lemma processResponse_advance:
  "t \<noteq> [] \<Longrightarrow> form_filling w \<Longrightarrow> extractValue t (currentFieldKey w) = Some v \<Longrightarrow> v \<noteq> [] \<Longrightarrow>
   currentStepRef w + 1 < length (getFieldOrder w) \<Longrightarrow>
   processResponse Q t w =
     startRequest (PHRASES_gotIt (langCode w) v) (AskNext (currentStepRef w + 1)) Return
       (setStepAndRef (currentStepRef w + 1)
          ((if onFieldUpdate w then emit (FieldUpdate (currentFieldKey w) v) else id)
             ((addHistory USER t (setStateAndRef PROCESSING w))
                \<lparr>collectedDataRef :=
                   AList.update (property_key (currentFieldKey w)) v (collectedDataRef w)\<rparr>)))"
  by (simp add: processResponse_unfold)

lemma processResponse_last:
  "t \<noteq> [] \<Longrightarrow> form_filling w \<Longrightarrow> extractValue t (currentFieldKey w) = Some v \<Longrightarrow> v \<noteq> [] \<Longrightarrow>
   \<not> currentStepRef w + 1 < length (getFieldOrder w) \<Longrightarrow>
   processResponse Q t w =
     startRequest (PHRASES_done (langCode w)) NoCallback
       (SaveThenDownload (AList.update (property_key (currentFieldKey w)) v (collectedDataRef w)))
       (setStateAndRef COMPLETED
          ((if onFieldUpdate w then emit (FieldUpdate (currentFieldKey w) v) else id)
             ((addHistory USER t (setStateAndRef PROCESSING w))
                \<lparr>collectedDataRef :=
                   AList.update (property_key (currentFieldKey w)) v (collectedDataRef w)\<rparr>)))"
  by (simp add: processResponse_unfold)

lemma extracted_Some: "extracted t w \<Longrightarrow> \<exists>v. extractValue t (currentFieldKey w) = Some v \<and> v \<noteq> []"
  by (auto simp: extracted_def split: option.splits)

lemma step_processResponse:
  "currentStepRef (processResponse Q t w) =
     (if t \<noteq> [] \<and> form_filling w \<and> extracted t w
         \<and> currentStepRef w + 1 < length (getFieldOrder w)
      then currentStepRef w + 1 else currentStepRef w)"
proof -
  have sr: "\<And>x k a v. currentStepRef (startRequest x k a v) = currentStepRef v"
    using session_fields [OF session_of_startRequest] by blast
  consider (empty) "t = []" | (triage) "t \<noteq> []" "\<not> form_filling w"
    | (retry) "t \<noteq> []" "form_filling w" "\<not> extracted t w"
    | (adv) "t \<noteq> []" "form_filling w" "extracted t w"
        "currentStepRef w + 1 < length (getFieldOrder w)"
    | (last) "t \<noteq> []" "form_filling w" "extracted t w"
        "\<not> currentStepRef w + 1 < length (getFieldOrder w)"
    by blast
  then show ?thesis
  proof cases
    case empty
    then show ?thesis by (simp add: processResponse_empty)
  next
    case triage
    then show ?thesis
      by (simp add: processResponse_triage emit_def addHistory_def setStateAndRef_def)
  next
    case retry
    then show ?thesis
      by (simp add: processResponse_retry sr addHistory_def setStateAndRef_def)
  next
    case adv
    from adv(3) obtain v where "extractValue t (currentFieldKey w) = Some v" "v \<noteq> []"
      using extracted_Some by blast
    with adv show ?thesis
      by (simp add: processResponse_advance sr setStepAndRef_def)
  next
    case last
    from last(3) obtain v where "extractValue t (currentFieldKey w) = Some v" "v \<noteq> []"
      using extracted_Some by blast
    with last show ?thesis
      by (simp add: processResponse_last sr setStateAndRef_def emit_def addHistory_def)
  qed
qed

lemma step_handle_other:
  "\<not> is_restart e \<Longrightarrow> (\<forall>t. e \<noteq> Transcript t) \<Longrightarrow>
   currentStepRef (handle Q w e) = currentStepRef w"
proof (cases e)
  case (Render s)
  then show ?thesis by simp
next
  case (RecommendReply r)
  then show ?thesis using session_fields [OF session_of_recommendReply] by simp
next
  case (SpeakReply n r)
  then show ?thesis using session_fields [OF session_of_speakReply] by simp
next
  case (PlayRejected a)
  then show ?thesis using session_fields [OF session_of_audio_events(3)] by simp
next
  case (AudioEnded a)
  then show ?thesis using session_fields [OF session_of_audio_events(1)] by simp
next
  case (AudioError a)
  then show ?thesis using session_fields [OF session_of_audio_events(2)] by simp
next
  case UtteranceEnd
  then show ?thesis using session_fields [OF session_of_utterance_events(1)] by simp
next
  case UtteranceError
  then show ?thesis using session_fields [OF session_of_utterance_events(1)] by simp
next
  case (CancelledUtteranceError i)
  then show ?thesis using session_fields [OF session_of_utterance_events(2)] by simp
qed (simp_all add: is_restart_def)

lemma step_handle:
  "\<not> is_restart e \<Longrightarrow>
   currentStepRef (handle Q w e) = currentStepRef w
   \<or> currentStepRef (handle Q w e) = currentStepRef w + 1"
proof (cases "\<exists>t. e = Transcript t")
  case True
  then show ?thesis by (auto simp: step_processResponse)
next
  case False
  assume "\<not> is_restart e"
  with False show ?thesis by (simp add: step_handle_other)
qed

lemma step_run_mono:
  "(\<forall>e \<in> set es. \<not> is_restart e) \<Longrightarrow> currentStepRef w \<le> currentStepRef (run Q w es)"
proof (induction es arbitrary: w)
  case Nil
  then show ?case by (simp add: run_def)
next
  case (Cons e es)
  then have "currentStepRef (handle Q w e) \<le> currentStepRef (run Q (handle Q w e) es)" by simp
  moreover from Cons.prems have "currentStepRef w \<le> currentStepRef (handle Q w e)"
    using step_handle [of e Q w] by auto
  ultimately show ?case by (simp add: run_def)
qed

lemma step_startConversation: "currentStepRef (startConversation Q lang g w) = 0"
proof -
  have "\<And>t k a v. currentStepRef (speak Q t k a v) = currentStepRef v"
    using session_fields [OF session_of_speak_family(1)] by blast
  then show ?thesis by (simp add: startConversation_def Let_def setStateAndRef_def)
qed

section \<open>The state after the request of \<open>speak\<close>\<close>

lemma stopCurrentAudio_fields [simp]:
  "stateRef (stopCurrentAudio w) = stateRef w"
  "conversationHistory (stopCurrentAudio w) = conversationHistory w"
  "calls (stopCurrentAudio w) = calls w"
  "length (audios (stopCurrentAudio w)) = length (audios w)"
  "currentAudio (stopCurrentAudio w) = None"
  "speechSynthesis (stopCurrentAudio w) = speechSynthesis w"
  "cancelledUtterances (stopCurrentAudio w) = cancelledUtterances w"
  "completions (stopCurrentAudio w) = completions w"
  "pendingRecommend (stopCurrentAudio w) = pendingRecommend w"
  by (simp_all add: stopCurrentAudio_def emit_def split: option.splits)

lemma synthCancel_fields [simp]:
  "stateRef (synthCancel w) = stateRef w"
  "conversationHistory (synthCancel w) = conversationHistory w"
  "calls (synthCancel w) = calls w"
  "audios (synthCancel w) = audios w"
  "currentAudio (synthCancel w) = currentAudio w"
  "speechSynthesis (synthCancel w) = (case speechSynthesis w of None \<Rightarrow> None | Some q \<Rightarrow> Some [])"
  "completions (synthCancel w) = completions w"
  "pendingRecommend (synthCancel w) = pendingRecommend w"
  by (simp_all add: synthCancel_def emit_def split: option.splits)

lemma startRequest_fields [simp]:
  "stateRef (startRequest t k a w) = SPEAKING"
  "conversationHistory (startRequest t k a w) = conversationHistory w @ [(AI, t)]"
  "calls (startRequest t k a w) =
     calls w @ [\<lparr>c_text = t, c_lang = languageRef w, c_onEnd = k, c_after = a, c_phase = Fetching\<rparr>]"
  "length (audios (startRequest t k a w)) = length (audios w)"
  "currentAudio (startRequest t k a w) = None"
  "speechSynthesis (startRequest t k a w) =
     (case speechSynthesis w of None \<Rightarrow> None | Some q \<Rightarrow> Some [])"
  "completions (startRequest t k a w) = completions w"
  "pendingRecommend (startRequest t k a w) = pendingRecommend w"
proof -
  have l: "languageRef (synthCancel (stopCurrentAudio w)) = languageRef w"
    using session_fields [of "synthCancel (stopCurrentAudio w)" w] by simp
  show "calls (startRequest t k a w) =
     calls w @ [\<lparr>c_text = t, c_lang = languageRef w, c_onEnd = k, c_after = a, c_phase = Fetching\<rparr>]"
    by (simp add: startRequest_def Let_def emit_def addHistory_def setStateAndRef_def l)
qed (simp_all add: startRequest_def Let_def emit_def addHistory_def setStateAndRef_def)

definition speech_only :: "effect list \<Rightarrow> effect list \<Rightarrow> bool" where
  "speech_only old new = (\<exists>xs. new = old @ xs \<and> list_all is_speech_effect xs)"

lemma speech_only_refl [simp]: "speech_only es es"
  by (simp add: speech_only_def)

lemma speech_only_trans: "speech_only a b \<Longrightarrow> speech_only b c \<Longrightarrow> speech_only a c"
  by (auto simp: speech_only_def)

lemma speech_only_emit:
  "is_speech_effect e \<Longrightarrow> speech_only old (effects w) \<Longrightarrow> speech_only old (effects (emit e w))"
  by (auto simp: speech_only_def emit_def)

lemma speech_only_filter:
  "speech_only old new \<Longrightarrow> (\<And>e. is_speech_effect e \<Longrightarrow> \<not> P e) \<Longrightarrow> filter P new = filter P old"
  by (auto simp: speech_only_def list_all_iff filter_empty_conv)

lemma speech_only_stopCurrentAudio: "speech_only (effects w) (effects (stopCurrentAudio w))"
  by (auto simp: stopCurrentAudio_def speech_only_def emit_def is_speech_effect_def
      split: option.splits)

lemma speech_only_synthCancel: "speech_only (effects w) (effects (synthCancel w))"
  by (auto simp: synthCancel_def speech_only_def emit_def is_speech_effect_def
      split: option.splits)

lemma speech_only_startRequest: "speech_only (effects w) (effects (startRequest t k a w))"
proof -
  have "speech_only (effects w) (effects (synthCancel (stopCurrentAudio w)))"
    using speech_only_stopCurrentAudio speech_only_synthCancel speech_only_trans by blast
  then show ?thesis
    by (auto simp: startRequest_def Let_def speech_only_def emit_def addHistory_def
        setStateAndRef_def is_speech_effect_def)
qed

lemma effects_startRequest:
  "effects (startRequest t k a w)
   = effects w @ stop_effects w @ [FetchSpeak (length (calls w)) t (languageRef w)]"
proof -
  have l: "languageRef (synthCancel (stopCurrentAudio w)) = languageRef w"
    using session_fields [of "synthCancel (stopCurrentAudio w)" w] by simp
  have "effects (synthCancel (stopCurrentAudio w)) = effects w @ stop_effects w"
    by (simp add: synthCancel_def stopCurrentAudio_def stop_effects_def emit_def
        split: option.splits)
  then show ?thesis
    by (simp add: startRequest_def Let_def emit_def addHistory_def setStateAndRef_def l)
qed

section \<open>An utterance played to its end\<close>

lemma speakReply_audio:
  assumes "n < length (calls w)" "c_phase (calls w ! n) = Fetching"
  shows "speakReply Q n AudioBlob w =
     emit (AudioPlay (length (audios w)))
       ((set_phase n (AwaitingAudio (length (audios w))) w)
          \<lparr>audios := audios w @ [\<lparr>a_call = n, a_onended = True, a_status = Playing\<rparr>],
           currentAudio := Some (length (audios w))\<rparr>)"
  using assms by (simp add: speakReply_def Let_def)

lemma speakReply_failed:
  assumes "n < length (calls w)" "c_phase (calls w ! n) = Fetching" "r \<noteq> AudioBlob"
  shows "speakReply Q n r w =
     run_after (c_after (calls w ! n))
       (fallbackSpeak Q n (c_text (calls w ! n)) (c_lang (calls w ! n)) (c_onEnd (calls w ! n)) w)"
  using assms by (cases r) (simp_all add: speakReply_def Let_def)

lemma audio_event_resolves:
  assumes "a < length (audios w)" "a_status (audios w ! a) = Playing" "a_onended (audios w ! a)"
    "e = AudioEnded a \<or> e = AudioError a \<or> e = PlayRejected a"
  shows "handle Q w e =
     resolve Q (a_call (audios w ! a)) ((set_status a Stopped w)\<lparr>currentAudio := None\<rparr>)"
  using assms by (auto simp: audioEnded_def audioError_def playRejected_def)

lemma resolve_awaiting:
  assumes "n < length (calls w)" "c_phase (calls w ! n) = AwaitingAudio a"
  shows "resolve Q n w =
     run_after (c_after (calls w ! n)) (complete Q n (c_onEnd (calls w ! n)) w)"
  using assms by (simp add: resolve_def)

lemma complete_unfold:
  "complete Q n k w =
     run_onEnd Q k (w\<lparr>calls := (calls w)[n := (calls w ! n)\<lparr>c_phase := Settled\<rparr>],
                     stateRef := LISTENING, completions := completions w @ [n]\<rparr>)"
  by (simp add: complete_def setStateAndRef_def set_phase_def)

lemma run_after_effects: "effects (run_after aft w) = effects w @ after_effects aft w"
  by (cases aft) (simp_all add: after_effects_def Let_def emit_def schemeIdOrUnknown_def)

lemma run_after_fields [simp]:
  "stateRef (run_after aft w) = stateRef w"
  "conversationHistory (run_after aft w) = conversationHistory w"
  "calls (run_after aft w) = calls w"
  "audios (run_after aft w) = audios w"
  "currentAudio (run_after aft w) = currentAudio w"
  "speechSynthesis (run_after aft w) = speechSynthesis w"
  "cancelledUtterances (run_after aft w) = cancelledUtterances w"
  "completions (run_after aft w) = completions w"
  "pendingRecommend (run_after aft w) = pendingRecommend w"
  by (cases aft; simp add: Let_def emit_def)+

lemma after_effects_session:
  "session_of w' = session_of w \<Longrightarrow> after_effects aft w' = after_effects aft w"
  by (cases aft) (simp_all add: after_effects_def session_of_def schemeIdOrUnknown_def)

lemma outward_after_effects [simp]: "outward (after_effects aft w) = after_effects aft w"
  by (cases aft) (simp_all add: after_effects_def outward_def is_speech_effect_def)

lemma outward_append [simp]: "outward (xs @ ys) = outward xs @ outward ys"
  by (simp add: outward_def)

lemma outward_speech_only: "speech_only old new \<Longrightarrow> outward new = outward old"
  by (auto simp: speech_only_def outward_def list_all_iff filter_empty_conv)

lemma run_onEnd_no_synth:
  "speechSynthesis w = None \<Longrightarrow> speechSynthesis (run_onEnd Q k w) = None"
proof (cases k)
  case (AskNext s)
  assume "speechSynthesis w = None"
  then show ?thesis
    by (simp add: AskNext askNextQuestion.simps speak_nonempty getQuestion_nonempty)
qed (simp_all add: emit_def)

lemma run_onEnd_after_commute:
  "aft = Return \<or> k = NoCallback \<Longrightarrow>
   run_after aft (run_onEnd Q k w) = run_onEnd Q k (run_after aft w)"
  by auto

text \<open>An utterance with audio from the backend: played to its end, failed, or refused.\<close>

lemma remote_path:
  assumes e: "e = AudioEnded a \<or> e = AudioError a \<or> e = PlayRejected a"
    and n: "n = length (calls w)" and a: "a = length (audios w)"
  shows "\<exists>X. run Q (startRequest t k aft w) [SpeakReply n AudioBlob, e]
               = run_after aft (run_onEnd Q k X)
           \<and> stateRef X = LISTENING \<and> session_of X = session_of w
           \<and> conversationHistory X = conversationHistory w @ [(AI, t)]
           \<and> speech_only (effects w) (effects X)
           \<and> completions X = completions w @ [n]
           \<and> pendingRecommend X = pendingRecommend w
           \<and> length (calls X) = Suc (length (calls w))
           \<and> length (audios X) = Suc (length (audios w))
           \<and> effects X = effects (startRequest t k aft w) @ [AudioPlay a]
           \<and> currentAudio X = None
           \<and> speechSynthesis X = speechSynthesis (startRequest t k aft w)"
proof -
  let ?w1 = "startRequest t k aft w"
  have c1: "n < length (calls ?w1)" "c_phase (calls ?w1 ! n) = Fetching"
    "c_onEnd (calls ?w1 ! n) = k" "c_after (calls ?w1 ! n) = aft"
    by (simp_all add: n)
  have a1: "length (audios ?w1) = a" by (simp add: a)
  define W1 where "W1 = speakReply Q n AudioBlob ?w1"
  have W1: "W1 = emit (AudioPlay a)
       ((set_phase n (AwaitingAudio a) ?w1)
          \<lparr>audios := audios ?w1 @ [\<lparr>a_call = n, a_onended = True, a_status = Playing\<rparr>],
           currentAudio := Some a\<rparr>)"
    unfolding W1_def using speakReply_audio [OF c1(1,2), of Q] a1 by simp
  have W1a: "a < length (audios W1)" "a_status (audios W1 ! a) = Playing"
    "a_onended (audios W1 ! a)" "a_call (audios W1 ! a) = n"
    using a1 by (simp_all add: W1 emit_def set_phase_def nth_append)
  define W2 where "W2 = (set_status a Stopped W1)\<lparr>currentAudio := None\<rparr>"
  have h: "handle Q W1 e = resolve Q n W2"
    using audio_event_resolves [OF W1a(1,2,3) e, of Q] W1a(4) by (simp add: W2_def)
  have W2c: "n < length (calls W2)" "c_phase (calls W2 ! n) = AwaitingAudio a"
    "c_onEnd (calls W2 ! n) = k" "c_after (calls W2 ! n) = aft"
    using c1 by (simp_all add: W2_def W1 set_status_def emit_def set_phase_def)
  define X where "X = W2\<lparr>calls := (calls W2)[n := (calls W2 ! n)\<lparr>c_phase := Settled\<rparr>],
                     stateRef := LISTENING, completions := completions W2 @ [n]\<rparr>"
  have r: "resolve Q n W2 = run_after aft (run_onEnd Q k X)"
    using resolve_awaiting [OF W2c(1,2), of Q] W2c(3,4) by (simp add: complete_unfold X_def)
  have run: "run Q ?w1 [SpeakReply n AudioBlob, e] = run_after aft (run_onEnd Q k X)"
    using h r by (simp add: run_def W1_def)
  have so: "speech_only (effects w) (effects ?w1)" by (rule speech_only_startRequest)
  have X_exact: "effects X = effects ?w1 @ [AudioPlay a]" "currentAudio X = None"
    "speechSynthesis X = speechSynthesis ?w1"
    by (simp_all add: X_def W2_def W1 set_status_def emit_def set_phase_def)
  with so have X_eff: "speech_only (effects w) (effects X)"
    by (auto simp: speech_only_def is_speech_effect_def)
  have X_sess: "session_of X = session_of w"
    by (simp add: X_def W2_def W1)
  have X_rest: "stateRef X = LISTENING" "conversationHistory X = conversationHistory w @ [(AI, t)]"
    "completions X = completions w @ [n]" "pendingRecommend X = pendingRecommend w"
    "length (calls X) = Suc (length (calls w))" "length (audios X) = Suc (length (audios w))"
    using a1 by (simp_all add: X_def W2_def W1 set_status_def emit_def set_phase_def)
  from run X_eff X_sess X_rest X_exact show ?thesis by blast
qed

text \<open>An utterance whose request failed: spoken by the local synthesizer, or by none.\<close>

lemma local_path:
  assumes r: "r \<noteq> AudioBlob" and u: "u = UtteranceEnd \<or> u = UtteranceError"
    and n: "n = length (calls w)" and ka: "aft = Return \<or> k = NoCallback"
  shows "\<exists>X. run Q (startRequest t k aft w) [SpeakReply n r, u] = run_onEnd Q k X
           \<and> stateRef X = LISTENING \<and> session_of X = session_of w
           \<and> conversationHistory X = conversationHistory w @ [(AI, t)]
           \<and> outward (effects X) = outward (effects w) @ after_effects aft w
           \<and> completions X = completions w @ [n]
           \<and> pendingRecommend X = pendingRecommend w
           \<and> length (calls X) = Suc (length (calls w))
           \<and> length (audios X) = length (audios w)
           \<and> effects X = effects (startRequest t k aft w)
               @ (case speechSynthesis w of
                    None \<Rightarrow> []
                  | Some q \<Rightarrow>
                      [SynthCancel,
                       SynthSpeak n t (if languageRef w = [] then js ''hi-IN'' else languageRef w)])
               @ after_effects aft w
           \<and> currentAudio X = None
           \<and> speechSynthesis X = speechSynthesis (startRequest t k aft w)"
proof -
  let ?w1 = "startRequest t k aft w"
  have c1: "n < length (calls ?w1)" "c_phase (calls ?w1 ! n) = Fetching"
    "c_onEnd (calls ?w1 ! n) = k" "c_after (calls ?w1 ! n) = aft"
    "c_text (calls ?w1 ! n) = t" "c_lang (calls ?w1 ! n) = languageRef w"
    by (simp_all add: n)
  have so: "speech_only (effects w) (effects ?w1)" by (rule speech_only_startRequest)
  have sr: "speakReply Q n r ?w1 = run_after aft (fallbackSpeak Q n t (languageRef w) k ?w1)"
    using speakReply_failed [OF c1(1,2) r, of Q] c1 by simp
  have hu: "handle Q v u = utteranceDone Q v" for v using u by auto
  show ?thesis
  proof (cases "speechSynthesis w")
    case None
    then have s1: "speechSynthesis ?w1 = None" by simp
    define X0 where "X0 = ?w1\<lparr>calls := (calls ?w1)[n := (calls ?w1 ! n)\<lparr>c_phase := Settled\<rparr>],
                     stateRef := LISTENING, completions := completions ?w1 @ [n]\<rparr>"
    have fb: "fallbackSpeak Q n t (languageRef w) k ?w1 = run_onEnd Q k X0"
      using s1 by (simp add: fallbackSpeak_def complete_unfold X0_def)
    have "speechSynthesis X0 = None" using s1 by (simp add: X0_def)
    then have "speechSynthesis (run_after aft (run_onEnd Q k X0)) = None"
      by (simp add: run_onEnd_no_synth)
    then have "utteranceDone Q (run_after aft (run_onEnd Q k X0)) = run_after aft (run_onEnd Q k X0)"
      by (simp add: utteranceDone_def)
    then have "run Q ?w1 [SpeakReply n r, u] = run_after aft (run_onEnd Q k X0)"
      by (simp add: run_def sr fb hu)
    then have run: "run Q ?w1 [SpeakReply n r, u] = run_onEnd Q k (run_after aft X0)"
      using run_onEnd_after_commute [OF ka] by simp
    have sX0: "session_of X0 = session_of w" by (simp add: X0_def)
    have "effects X0 = effects ?w1" by (simp add: X0_def)
    then have "outward (effects (run_after aft X0)) = outward (effects w) @ after_effects aft w"
      using outward_speech_only [OF so] after_effects_session [OF sX0]
      by (simp add: run_after_effects)
    moreover have "stateRef (run_after aft X0) = LISTENING"
      "conversationHistory (run_after aft X0) = conversationHistory w @ [(AI, t)]"
      "completions (run_after aft X0) = completions w @ [n]"
      "pendingRecommend (run_after aft X0) = pendingRecommend w"
      "length (calls (run_after aft X0)) = Suc (length (calls w))"
      "length (audios (run_after aft X0)) = length (audios w)"
      by (simp_all add: X0_def)
    moreover have "session_of (run_after aft X0) = session_of w" using sX0 by simp
    moreover have "effects (run_after aft X0) = effects ?w1
               @ (case speechSynthesis w of
                    None \<Rightarrow> []
                  | Some q \<Rightarrow>
                      [SynthCancel,
                       SynthSpeak n t (if languageRef w = [] then js ''hi-IN'' else languageRef w)])
               @ after_effects aft w"
      using None after_effects_session [OF sX0] by (simp add: run_after_effects X0_def)
    moreover have "currentAudio (run_after aft X0) = None"
      "speechSynthesis (run_after aft X0) = speechSynthesis ?w1"
      by (simp_all add: X0_def)
    ultimately show ?thesis using run by blast
  next
    case (Some q)
    then have s1: "speechSynthesis ?w1 = Some []" by simp
    define u0 where "u0 = \<lparr>u_call = n, u_text = t,
        u_lang = (if languageRef w = [] then js ''hi-IN'' else languageRef w), u_onEnd = k\<rparr>"
    define F where "F = fallbackSpeak Q n t (languageRef w) k ?w1"
    have F: "F = emit (SynthSpeak n t (u_lang u0))
                (set_phase n LocalVoice
                   ((synthCancel ?w1)\<lparr>speechSynthesis := Some [u0]\<rparr>))"
      using s1 by (simp add: F_def fallbackSpeak_def Let_def u0_def)
    have Fq: "speechSynthesis F = Some [u0]"
      by (simp add: F emit_def set_phase_def)
    define X where "X = (run_after aft F)\<lparr>speechSynthesis := Some [],
        calls := (calls F)[n := (calls F ! n)\<lparr>c_phase := Settled\<rparr>],
        stateRef := LISTENING, completions := completions F @ [n]\<rparr>"
    have "utteranceDone Q (run_after aft F) = run_onEnd Q k X"
      using Fq by (simp add: utteranceDone_def complete_unfold X_def u0_def)
    then have run: "run Q ?w1 [SpeakReply n r, u] = run_onEnd Q k X"
      by (simp add: run_def sr hu F_def)
    have sF: "session_of F = session_of w" by (simp add: F_def)
    have "speech_only (effects ?w1) (effects (synthCancel ?w1))"
      by (rule speech_only_synthCancel)
    then have "speech_only (effects ?w1) (effects F)"
      by (auto simp: F emit_def set_phase_def speech_only_def is_speech_effect_def)
    with so have "speech_only (effects w) (effects F)" using speech_only_trans by blast
    then have "outward (effects F) = outward (effects w)" by (rule outward_speech_only)
    moreover have "effects X = effects F @ after_effects aft F"
      by (simp add: X_def run_after_effects)
    ultimately have X_eff: "outward (effects X) = outward (effects w) @ after_effects aft w"
      using after_effects_session [OF sF] by simp
    have X_sess: "session_of X = session_of w" using sF by (simp add: X_def)
    have X_rest: "stateRef X = LISTENING"
      "conversationHistory X = conversationHistory w @ [(AI, t)]"
      "completions X = completions w @ [n]" "pendingRecommend X = pendingRecommend w"
      "length (calls X) = Suc (length (calls w))" "length (audios X) = length (audios w)"
      by (simp_all add: X_def F emit_def set_phase_def)
    have "effects F = effects ?w1 @ [SynthCancel, SynthSpeak n t (u_lang u0)]"
      using s1 by (simp add: F emit_def set_phase_def synthCancel_def)
    then have X_exact: "effects X = effects ?w1
               @ (case speechSynthesis w of
                    None \<Rightarrow> []
                  | Some q \<Rightarrow>
                      [SynthCancel,
                       SynthSpeak n t (if languageRef w = [] then js ''hi-IN'' else languageRef w)])
               @ after_effects aft w"
      using Some after_effects_session [OF sF] by (simp add: X_def run_after_effects u0_def)
    have X_media: "currentAudio X = None" "speechSynthesis X = speechSynthesis ?w1"
      using s1 by (simp_all add: X_def F emit_def set_phase_def synthCancel_def)
    from run X_eff X_sess X_rest X_exact X_media show ?thesis by blast
  qed
qed

text \<open>Every call of \<open>speak\<close> in the source has no closure or no code after it, so the two
  commute.  However the utterance ends, the call completes once and the state is
  \<open>LISTENING\<close> when its closure runs.\<close>

lemma utterance_run:
  assumes es: "es \<in> set (utterance_runs (length (calls w)) (length (audios w)))"
    and ka: "aft = Return \<or> k = NoCallback"
  shows "\<exists>X. run Q (startRequest t k aft w) es = run_onEnd Q k X
           \<and> stateRef X = LISTENING \<and> session_of X = session_of w
           \<and> conversationHistory X = conversationHistory w @ [(AI, t)]
           \<and> outward (effects X) = outward (effects w) @ after_effects aft w
           \<and> completions X = completions w @ [length (calls w)]
           \<and> pendingRecommend X = pendingRecommend w
           \<and> length (calls X) = Suc (length (calls w))
           \<and> length (audios X) = length (audios (run Q (startRequest t k aft w) es))
           \<and> effects X = effects (startRequest t k aft w) @ utterance_effects w t es
               @ after_effects aft w
           \<and> currentAudio X = None
           \<and> speechSynthesis X = speechSynthesis (startRequest t k aft w)
           \<and> length (audios X) = length (audios w)
               + (if hd es = SpeakReply (length (calls w)) AudioBlob then 1 else 0)"
proof -
  let ?n = "length (calls w)" and ?a = "length (audios w)"
  from es consider
    (remote) e where "es = [SpeakReply ?n AudioBlob, e]"
      "e = AudioEnded ?a \<or> e = AudioError ?a \<or> e = PlayRejected ?a"
    | (local) r u where "es = [SpeakReply ?n r, u]" "r \<noteq> AudioBlob"
      "u = UtteranceEnd \<or> u = UtteranceError"
    by (auto simp: utterance_runs_def)
  then show ?thesis
  proof cases
    case remote
    from remote_path [OF remote(2) refl refl, of Q t k aft] obtain X where
      X: "run Q (startRequest t k aft w) es = run_after aft (run_onEnd Q k X)"
      "stateRef X = LISTENING" "session_of X = session_of w"
      "conversationHistory X = conversationHistory w @ [(AI, t)]"
      "speech_only (effects w) (effects X)" "completions X = completions w @ [?n]"
      "pendingRecommend X = pendingRecommend w" "length (calls X) = Suc (length (calls w))"
      "effects X = effects (startRequest t k aft w) @ [AudioPlay ?a]"
      "currentAudio X = None" "speechSynthesis X = speechSynthesis (startRequest t k aft w)"
      "length (audios X) = Suc (length (audios w))"
      unfolding remote(1) by blast
    have run: "run Q (startRequest t k aft w) es = run_onEnd Q k (run_after aft X)"
      using X(1) run_onEnd_after_commute [OF ka] by simp
    have "outward (effects (run_after aft X)) = outward (effects w) @ after_effects aft w"
      using outward_speech_only [OF X(5)] after_effects_session [OF X(3)]
      by (simp add: run_after_effects)
    moreover have "length (audios (run_after aft X))
        = length (audios (run Q (startRequest t k aft w) es))"
      unfolding run by (cases k) (simp_all add: askNextQuestion.simps speak_nonempty
          getQuestion_nonempty emit_def)
    moreover have "effects (run_after aft X)
        = effects (startRequest t k aft w) @ utterance_effects w t es @ after_effects aft w"
      using X(9) after_effects_session [OF X(3)]
      by (simp add: run_after_effects utterance_effects_def remote(1))
    moreover have "length (audios (run_after aft X)) = length (audios w)
               + (if hd es = SpeakReply (length (calls w)) AudioBlob then 1 else 0)"
      using X(12) by (simp add: remote(1))
    ultimately show ?thesis using run X(2,3,4,6,7,8,10,11)
      by (intro exI [of _ "run_after aft X"]) simp
  next
    case local
    from local_path [OF local(2,3) refl ka, of Q t] obtain X where
      X: "run Q (startRequest t k aft w) es = run_onEnd Q k X"
      "stateRef X = LISTENING" "session_of X = session_of w"
      "conversationHistory X = conversationHistory w @ [(AI, t)]"
      "outward (effects X) = outward (effects w) @ after_effects aft w"
      "completions X = completions w @ [?n]"
      "pendingRecommend X = pendingRecommend w" "length (calls X) = Suc (length (calls w))"
      "effects X = effects (startRequest t k aft w)
               @ (case speechSynthesis w of
                    None \<Rightarrow> []
                  | Some q \<Rightarrow>
                      [SynthCancel,
                       SynthSpeak ?n t (if languageRef w = [] then js ''hi-IN'' else languageRef w)])
               @ after_effects aft w"
      "currentAudio X = None" "speechSynthesis X = speechSynthesis (startRequest t k aft w)"
      "length (audios X) = length (audios w)"
      unfolding local(1) by blast
    have "length (audios X) = length (audios (run Q (startRequest t k aft w) es))"
      unfolding X(1) by (cases k) (simp_all add: askNextQuestion.simps speak_nonempty
          getQuestion_nonempty emit_def)
    moreover have "effects X
        = effects (startRequest t k aft w) @ utterance_effects w t es @ after_effects aft w"
      using X(9) local(2) by (simp add: utterance_effects_def local(1))
    moreover have "length (audios X) = length (audios w)
               + (if hd es = SpeakReply (length (calls w)) AudioBlob then 1 else 0)"
      using X(12) local(2) by (simp add: local(1))
    ultimately show ?thesis using X(1-8,10,11) by blast
  qed
qed

text \<open>A call of \<open>speak\<close> with no closure, from its request to the end of the utterance.\<close>

lemma utterance_ends:
  assumes es: "es \<in> set (utterance_runs (length (calls w)) (length (audios w)))"
  shows "stateRef (run Q (startRequest t NoCallback aft w) es) = LISTENING"
    "session_of (run Q (startRequest t NoCallback aft w) es) = session_of w"
    "effects (run Q (startRequest t NoCallback aft w) es)
       = effects w @ stop_effects w @ [FetchSpeak (length (calls w)) t (languageRef w)]
         @ utterance_effects w t es @ after_effects aft w"
    "length (calls (run Q (startRequest t NoCallback aft w) es)) = Suc (length (calls w))"
    "length (audios (run Q (startRequest t NoCallback aft w) es)) = length (audios w)
       + (if hd es = SpeakReply (length (calls w)) AudioBlob then 1 else 0)"
    "currentAudio (run Q (startRequest t NoCallback aft w) es) = None"
    "speechSynthesis (run Q (startRequest t NoCallback aft w) es)
       = (case speechSynthesis w of None \<Rightarrow> None | Some q \<Rightarrow> Some [])"
    "pendingRecommend (run Q (startRequest t NoCallback aft w) es) = pendingRecommend w"
    "conversationHistory (run Q (startRequest t NoCallback aft w) es)
       = conversationHistory w @ [(AI, t)]"
    "completions (run Q (startRequest t NoCallback aft w) es) = completions w @ [length (calls w)]"
proof -
  from utterance_run [OF es, of aft NoCallback Q t]
  obtain X where X: "run Q (startRequest t NoCallback aft w) es = X"
    "stateRef X = LISTENING" "session_of X = session_of w"
    "conversationHistory X = conversationHistory w @ [(AI, t)]"
    "completions X = completions w @ [length (calls w)]"
    "pendingRecommend X = pendingRecommend w"
    "length (calls X) = Suc (length (calls w))"
    "effects X = effects (startRequest t NoCallback aft w) @ utterance_effects w t es
               @ after_effects aft w"
    "currentAudio X = None"
    "speechSynthesis X = speechSynthesis (startRequest t NoCallback aft w)"
    "length (audios X) = length (audios w)
               + (if hd es = SpeakReply (length (calls w)) AudioBlob then 1 else 0)"
    by auto
  show "stateRef (run Q (startRequest t NoCallback aft w) es) = LISTENING"
    "session_of (run Q (startRequest t NoCallback aft w) es) = session_of w"
    "length (calls (run Q (startRequest t NoCallback aft w) es)) = Suc (length (calls w))"
    "length (audios (run Q (startRequest t NoCallback aft w) es)) = length (audios w)
       + (if hd es = SpeakReply (length (calls w)) AudioBlob then 1 else 0)"
    "currentAudio (run Q (startRequest t NoCallback aft w) es) = None"
    "pendingRecommend (run Q (startRequest t NoCallback aft w) es) = pendingRecommend w"
    "conversationHistory (run Q (startRequest t NoCallback aft w) es)
       = conversationHistory w @ [(AI, t)]"
    "completions (run Q (startRequest t NoCallback aft w) es) = completions w @ [length (calls w)]"
    using X by simp_all
  show "effects (run Q (startRequest t NoCallback aft w) es)
       = effects w @ stop_effects w @ [FetchSpeak (length (calls w)) t (languageRef w)]
         @ utterance_effects w t es @ after_effects aft w"
    using X(1,8) by (simp add: effects_startRequest)
  show "speechSynthesis (run Q (startRequest t NoCallback aft w) es)
       = (case speechSynthesis w of None \<Rightarrow> None | Some q \<Rightarrow> Some [])"
    using X(1,10) by simp
qed

lemma run_append: "run Q w (xs @ ys) = run Q (run Q w xs) ys"
  by (simp add: run_def)

lemma getQuestion_session:
  "session_of w' = session_of w \<Longrightarrow> getQuestion Q k w' = getQuestion Q k w"
  by (simp add: getQuestion_def langCode_def session_of_def)

lemma askNext_asks:
  "s < length (getFieldOrder w) \<Longrightarrow>
   askNextQuestion Q s w = startRequest (getQuestion Q (getFieldOrder w ! s) w) NoCallback Return w"
  by (simp add: askNextQuestion.simps speak_nonempty getQuestion_nonempty)

lemma field_update_outward: "filter is_field_update es = filter is_field_update (outward es)"
  by (induction es) (auto simp: outward_def is_field_update_def is_speech_effect_def
      split: effect.splits)

lemma scheme_change_outward: "filter is_scheme_change es = filter is_scheme_change (outward es)"
  by (induction es) (auto simp: outward_def is_scheme_change_def is_speech_effect_def
      split: effect.splits)

lemma outward_startRequest: "outward (effects (startRequest t k a w)) = outward (effects w)"
  using speech_only_startRequest by (rule outward_speech_only)

lemma outward_askNext: "outward (effects (run_onEnd Q (AskNext s) w)) = outward (effects w)"
  by (simp add: askNextQuestion.simps speak_nonempty getQuestion_nonempty outward_startRequest)

section \<open>Retry\<close>

lemma stop_no_match: "generic_field f \<Longrightarrow> extractValue (js ''stop'') f = None"
proof -
  assume "generic_field f"
  moreover have "''stop'' \<in> set reject_words" by (simp add: reject_words_def)
  ultimately show ?thesis
    using reject_words_rejected by (simp add: extractValue_generic)
qed

lemma stop_not_extracted: "generic_field (currentFieldKey w) \<Longrightarrow> \<not> extracted (js ''stop'') w"
  by (simp add: extracted_def stop_no_match)

lemma retry_now:
  assumes "form_filling w" "t \<noteq> []" "\<not> extracted t w"
  shows "currentStepRef (processResponse Q t w) = currentStepRef w"
    "collectedDataRef (processResponse Q t w) = collectedDataRef w"
    "filter is_field_update (effects (processResponse Q t w)) = filter is_field_update (effects w)"
    "stateRef (processResponse Q t w) = SPEAKING"
    "last (conversationHistory (processResponse Q t w)) = (AI, PHRASES_retry (langCode w))"
    "effects (processResponse Q t w)
       = effects w @ stop_effects w
         @ [FetchSpeak (length (calls w)) (PHRASES_retry (langCode w)) (languageRef w)]"
proof -
  let ?w0 = "addHistory USER t (setStateAndRef PROCESSING w)"
  have p: "processResponse Q t w =
      startRequest (PHRASES_retry (langCode w)) (AskNext (currentStepRef w)) Return ?w0"
    using assms by (simp add: processResponse_retry)
  show "effects (processResponse Q t w)
       = effects w @ stop_effects w
         @ [FetchSpeak (length (calls w)) (PHRASES_retry (langCode w)) (languageRef w)]"
    by (simp add: p effects_startRequest)
       (simp add: addHistory_def setStateAndRef_def stop_effects_def)
  have s: "session_of (processResponse Q t w) = session_of w" by (simp add: p)
  from session_fields [OF s]
  show "currentStepRef (processResponse Q t w) = currentStepRef w"
    "collectedDataRef (processResponse Q t w) = collectedDataRef w" by simp_all
  have "outward (effects (processResponse Q t w)) = outward (effects w)"
    by (simp add: p outward_startRequest addHistory_def setStateAndRef_def)
  then show "filter is_field_update (effects (processResponse Q t w))
      = filter is_field_update (effects w)"
    using field_update_outward by metis
  show "stateRef (processResponse Q t w) = SPEAKING" by (simp add: p)
  show "last (conversationHistory (processResponse Q t w)) = (AI, PHRASES_retry (langCode w))"
    by (simp add: p)
qed

lemma retry_then:
  assumes "form_filling w" "t \<noteq> []" "\<not> extracted t w"
    and es: "es \<in> set (utterance_runs (length (calls w)) (length (audios w)))"
  shows "currentStepRef (run Q (processResponse Q t w) es) = currentStepRef w"
    "collectedDataRef (run Q (processResponse Q t w) es) = collectedDataRef w"
    "filter is_field_update (effects (run Q (processResponse Q t w) es))
       = filter is_field_update (effects w)"
    "currentStepRef w < length (getFieldOrder w) \<Longrightarrow>
       last (conversationHistory (run Q (processResponse Q t w) es))
         = (AI, getQuestion Q (getFieldOrder w ! currentStepRef w) w)
       \<and> stateRef (run Q (processResponse Q t w) es) = SPEAKING"
    "effects (run Q (processResponse Q t w) es)
       = effects (processResponse Q t w)
         @ utterance_effects w (PHRASES_retry (langCode w)) es
         @ (if currentStepRef w < length (getFieldOrder w)
            then (case speechSynthesis w of None \<Rightarrow> [] | Some q \<Rightarrow> [SynthCancel])
                 @ [FetchSpeak (Suc (length (calls w)))
                      (getQuestion Q (getFieldOrder w ! currentStepRef w) w) (languageRef w)]
            else [])"
proof -
  let ?w0 = "addHistory USER t (setStateAndRef PROCESSING w)"
  let ?s = "currentStepRef w"
  have p: "processResponse Q t w = startRequest (PHRASES_retry (langCode w)) (AskNext ?s) Return ?w0"
    using assms by (simp add: processResponse_retry)
  have w0: "session_of ?w0 = session_of w" "effects ?w0 = effects w"
    "calls ?w0 = calls w" "audios ?w0 = audios w"
    by (simp_all add: addHistory_def setStateAndRef_def)
  from es have "es \<in> set (utterance_runs (length (calls ?w0)) (length (audios ?w0)))"
    by (simp add: w0)
  from utterance_run [OF this, of Return "AskNext ?s" Q "PHRASES_retry (langCode w)"]
  obtain X where X: "run Q (processResponse Q t w) es = run_onEnd Q (AskNext ?s) X"
    "session_of X = session_of w" "outward (effects X) = outward (effects w)"
    "effects X = effects (processResponse Q t w)
       @ utterance_effects ?w0 (PHRASES_retry (langCode w)) es"
    "currentAudio X = None"
    "speechSynthesis X = (case speechSynthesis ?w0 of None \<Rightarrow> None | Some q \<Rightarrow> Some [])"
    "length (calls X) = Suc (length (calls w))"
    by (auto simp: p w0 after_effects_def)
  have ue: "utterance_effects ?w0 (PHRASES_retry (langCode w)) es
      = utterance_effects w (PHRASES_retry (langCode w)) es"
    by (simp add: utterance_effects_def addHistory_def setStateAndRef_def split: option.splits)
  have sy: "speechSynthesis X = (case speechSynthesis w of None \<Rightarrow> None | Some q \<Rightarrow> Some [])"
    using X(6) by (simp add: addHistory_def setStateAndRef_def)
  have lx: "languageRef X = languageRef w" using session_fields [OF X(2)] by simp
  have s: "session_of (run Q (processResponse Q t w) es) = session_of w"
    by (simp add: X(1) X(2))
  from session_fields [OF s]
  show "currentStepRef (run Q (processResponse Q t w) es) = currentStepRef w"
    "collectedDataRef (run Q (processResponse Q t w) es) = collectedDataRef w" by simp_all
  have f: "getFieldOrder X = getFieldOrder w" using X(2) by (rule getFieldOrder_session)
  have "outward (effects (run_onEnd Q (AskNext ?s) X)) = outward (effects w)"
    using X(3) by (simp only: outward_askNext)
  then show "filter is_field_update (effects (run Q (processResponse Q t w) es))
       = filter is_field_update (effects w)"
    unfolding X(1) using field_update_outward by metis
  show "last (conversationHistory (run Q (processResponse Q t w) es))
         = (AI, getQuestion Q (getFieldOrder w ! currentStepRef w) w)
       \<and> stateRef (run Q (processResponse Q t w) es) = SPEAKING"
    if "currentStepRef w < length (getFieldOrder w)"
    using that by (simp add: X(1) askNext_asks f getQuestion_session [OF X(2)])
  show "effects (run Q (processResponse Q t w) es)
       = effects (processResponse Q t w)
         @ utterance_effects w (PHRASES_retry (langCode w)) es
         @ (if currentStepRef w < length (getFieldOrder w)
            then (case speechSynthesis w of None \<Rightarrow> [] | Some q \<Rightarrow> [SynthCancel])
                 @ [FetchSpeak (Suc (length (calls w)))
                      (getQuestion Q (getFieldOrder w ! currentStepRef w) w) (languageRef w)]
            else [])"
  proof (cases "currentStepRef w < length (getFieldOrder w)")
    case True
    then have "run Q (processResponse Q t w) es
        = startRequest (getQuestion Q (getFieldOrder w ! ?s) w) NoCallback Return X"
      by (simp add: X(1) askNext_asks f getQuestion_session [OF X(2)])
    moreover have "stop_effects X
        = (case speechSynthesis w of None \<Rightarrow> [] | Some q \<Rightarrow> [SynthCancel])"
      using X(5) sy by (simp add: stop_effects_def split: option.splits)
    ultimately show ?thesis
      using True by (simp add: effects_startRequest X(4,7) ue lx)
  next
    case False
    then have "run Q (processResponse Q t w) es = X"
      by (simp add: X(1) askNextQuestion.simps f)
    then show ?thesis using False by (simp add: X(4) ue)
  qed
qed

section \<open>What a turn stores\<close>

lemma outward_emit:
  "outward (effects (emit e w)) = outward (effects w) @ (if is_speech_effect e then [] else [e])"
  by (simp add: emit_def outward_def)

lemma collected_processResponse:
  "collectedDataRef (processResponse Q t w) =
     (if t \<noteq> [] \<and> form_filling w \<and> extracted t w
      then AList.update (property_key (currentFieldKey w)) (the (extractValue t (currentFieldKey w)))
             (collectedDataRef w)
      else collectedDataRef w)"
proof -
  have sr: "\<And>x k a v. collectedDataRef (startRequest x k a v) = collectedDataRef v"
    using session_fields [OF session_of_startRequest] by blast
  consider (empty) "t = []" | (triage) "t \<noteq> []" "\<not> form_filling w"
    | (retry) "t \<noteq> []" "form_filling w" "\<not> extracted t w"
    | (adv) "t \<noteq> []" "form_filling w" "extracted t w"
        "currentStepRef w + 1 < length (getFieldOrder w)"
    | (last) "t \<noteq> []" "form_filling w" "extracted t w"
        "\<not> currentStepRef w + 1 < length (getFieldOrder w)"
    by blast
  then show ?thesis
  proof cases
    case empty
    then show ?thesis by (simp add: processResponse_empty)
  next
    case triage
    then show ?thesis
      by (simp add: processResponse_triage emit_def addHistory_def setStateAndRef_def)
  next
    case retry
    then show ?thesis
      by (simp add: processResponse_retry sr addHistory_def setStateAndRef_def)
  next
    case adv
    from adv(3) obtain v where "extractValue t (currentFieldKey w) = Some v" "v \<noteq> []"
      using extracted_Some by blast
    with adv show ?thesis
      by (simp add: processResponse_advance sr setStepAndRef_def emit_def addHistory_def
          setStateAndRef_def)
  next
    case last
    from last(3) obtain v where "extractValue t (currentFieldKey w) = Some v" "v \<noteq> []"
      using extracted_Some by blast
    with last show ?thesis
      by (simp add: processResponse_last sr setStateAndRef_def emit_def addHistory_def)
  qed
qed

lemma outward_processResponse:
  "outward (effects (processResponse Q t w)) =
     outward (effects w)
     @ (if t \<noteq> [] \<and> \<not> form_filling w then [FetchRecommend t (languageRef w)] else [])
     @ (if t \<noteq> [] \<and> form_filling w \<and> extracted t w \<and> onFieldUpdate w
        then [FieldUpdate (currentFieldKey w) (the (extractValue t (currentFieldKey w)))] else [])"
proof -
  consider (empty) "t = []" | (triage) "t \<noteq> []" "\<not> form_filling w"
    | (retry) "t \<noteq> []" "form_filling w" "\<not> extracted t w"
    | (adv) "t \<noteq> []" "form_filling w" "extracted t w"
        "currentStepRef w + 1 < length (getFieldOrder w)"
    | (last) "t \<noteq> []" "form_filling w" "extracted t w"
        "\<not> currentStepRef w + 1 < length (getFieldOrder w)"
    by blast
  then show ?thesis
  proof cases
    case empty
    then show ?thesis by (simp add: processResponse_empty)
  next
    case triage
    then show ?thesis
      by (simp add: processResponse_triage outward_emit addHistory_def setStateAndRef_def
          is_speech_effect_def)
  next
    case retry
    then show ?thesis
      by (simp add: processResponse_retry outward_startRequest addHistory_def setStateAndRef_def)
  next
    case adv
    from adv(3) obtain v where "extractValue t (currentFieldKey w) = Some v" "v \<noteq> []"
      using extracted_Some by blast
    with adv show ?thesis
      by (simp add: processResponse_advance outward_startRequest setStepAndRef_def outward_emit
          addHistory_def setStateAndRef_def is_speech_effect_def)
  next
    case last
    from last(3) obtain v where "extractValue t (currentFieldKey w) = Some v" "v \<noteq> []"
      using extracted_Some by blast
    with last show ?thesis
      by (simp add: processResponse_last outward_startRequest outward_emit
          addHistory_def setStateAndRef_def is_speech_effect_def)
  qed
qed

lemma language_irrelevant [simp]:
  "form_filling (w\<lparr>languageRef := l\<rparr>) = form_filling w"
  "getFieldOrder (w\<lparr>languageRef := l\<rparr>) = getFieldOrder w"
  "currentFieldKey (w\<lparr>languageRef := l\<rparr>) = currentFieldKey w"
  "extracted t (w\<lparr>languageRef := l\<rparr>) = extracted t w"
  by (simp_all add: form_filling_def getFieldOrder_def currentFieldKey_def extracted_def)

text \<open>
  C10.  The value extracted in a turn depends on the transcript and the field type only,
  not on the language of the session: two sessions that differ in the language alone
  extract the same value, store the same data, stand at the same step and report the same
  field updates to the caller.
\<close>

theorem extraction_ignores_language:
  "extractValue t (currentFieldKey (w\<lparr>languageRef := l\<rparr>)) = extractValue t (currentFieldKey w)
   \<and> collectedDataRef (processResponse Q t (w\<lparr>languageRef := l\<rparr>))
       = collectedDataRef (processResponse Q t w)
   \<and> currentStepRef (processResponse Q t (w\<lparr>languageRef := l\<rparr>))
       = currentStepRef (processResponse Q t w)
   \<and> filter is_field_update (effects (processResponse Q t (w\<lparr>languageRef := l\<rparr>)))
       = filter is_field_update (effects (processResponse Q t w))"
proof -
  have "filter is_field_update (outward (effects (processResponse Q t (w\<lparr>languageRef := l\<rparr>))))
       = filter is_field_update (outward (effects (processResponse Q t w)))"
    by (simp add: outward_processResponse is_field_update_def)
  then have "filter is_field_update (effects (processResponse Q t (w\<lparr>languageRef := l\<rparr>)))
       = filter is_field_update (effects (processResponse Q t w))"
    using field_update_outward by metis
  then show ?thesis
    by (simp add: collected_processResponse step_processResponse)
qed

theorem extraction_ignores_language_witness:
  "collectedDataRef (processResponse no_questions (js ''Rajesh Kumar'')
       ((listening_at pm_awas 0)\<lparr>languageRef := js ''en-IN''\<rparr>))
     = collectedDataRef (processResponse no_questions (js ''Rajesh Kumar'') (listening_at pm_awas 0))"
  using extraction_ignores_language [where t = "js ''Rajesh Kumar''"
      and w = "listening_at pm_awas 0" and l = "js ''en-IN''" and Q = no_questions]
  by simp

section \<open>Whole turns of the dialogue\<close>

text \<open>Fields that the preparation of a turn leaves alone.\<close>

lemma media_upd [simp]:
  "stop_effects (w\<lparr>stateRef := s\<rparr>) = stop_effects w"
  "stop_effects (w\<lparr>conversationHistory := h\<rparr>) = stop_effects w"
  "stop_effects (w\<lparr>collectedDataRef := d\<rparr>) = stop_effects w"
  "stop_effects (w\<lparr>currentStepRef := n\<rparr>) = stop_effects w"
  "stop_effects (w\<lparr>effects := es\<rparr>) = stop_effects w"
  "stop_effects (w\<lparr>pendingRecommend := p\<rparr>) = stop_effects w"
  "utterance_effects (w\<lparr>stateRef := s\<rparr>) t e = utterance_effects w t e"
  "utterance_effects (w\<lparr>conversationHistory := h\<rparr>) t e = utterance_effects w t e"
  "utterance_effects (w\<lparr>collectedDataRef := d\<rparr>) t e = utterance_effects w t e"
  "utterance_effects (w\<lparr>currentStepRef := n\<rparr>) t e = utterance_effects w t e"
  "utterance_effects (w\<lparr>effects := es\<rparr>) t e = utterance_effects w t e"
  "utterance_effects (w\<lparr>pendingRecommend := p\<rparr>) t e = utterance_effects w t e"
  by (simp_all add: stop_effects_def utterance_effects_def split: option.splits)

text \<open>The turn of the last field: the value is stored and reported, the state is set to
  \<open>COMPLETED\<close> and at once to \<open>SPEAKING\<close> by \<open>speak\<close>; when the closing message has ended the
  state is \<open>LISTENING\<close>, and the form is saved and the download timer set.\<close>

lemma last_turn:
  assumes ff: "form_filling w" and t: "t \<noteq> []"
    and v: "extractValue t (currentFieldKey w) = Some v" "v \<noteq> []"
    and l: "\<not> currentStepRef w + 1 < length (getFieldOrder w)"
    and es: "es \<in> set (utterance_runs (length (calls w)) (length (audios w)))"
    and d: "d = AList.update (property_key (currentFieldKey w)) v (collectedDataRef w)"
  shows "stateRef (processResponse Q t w) = SPEAKING"
    "stateRef (run Q (processResponse Q t w) es) = LISTENING"
    "session_of (run Q (processResponse Q t w) es)
       = (currentStepRef w, languageRef w, d, schemeRef w,
          onFieldUpdate w, onSchemeChange w, onDownload w)"
    "effects (run Q (processResponse Q t w) es)
       = effects w @ (if onFieldUpdate w then [FieldUpdate (currentFieldKey w) v] else [])
         @ stop_effects w
         @ [FetchSpeak (length (calls w)) (PHRASES_done (langCode w)) (languageRef w)]
         @ utterance_effects w (PHRASES_done (langCode w)) es
         @ [FetchSaveForm (schemeIdOrUnknown w) (valueOrEmpty d (js ''mobile''))
              (valueOrEmpty d (js ''aadhar'')) d]
         @ (if onDownload w then [DownloadTimer] else [])"
    "length (calls (run Q (processResponse Q t w) es)) = Suc (length (calls w))"
    "length (audios (run Q (processResponse Q t w) es)) = length (audios w)
       + (if hd es = SpeakReply (length (calls w)) AudioBlob then 1 else 0)"
    "currentAudio (run Q (processResponse Q t w) es) = None"
    "speechSynthesis (run Q (processResponse Q t w) es)
       = (case speechSynthesis w of None \<Rightarrow> None | Some q \<Rightarrow> Some [])"
    "pendingRecommend (run Q (processResponse Q t w) es) = pendingRecommend w"
proof -
  define W where "W = setStateAndRef COMPLETED
          ((if onFieldUpdate w then emit (FieldUpdate (currentFieldKey w) v) else id)
             ((addHistory USER t (setStateAndRef PROCESSING w))\<lparr>collectedDataRef := d\<rparr>))"
  have p: "processResponse Q t w
      = startRequest (PHRASES_done (langCode w)) NoCallback (SaveThenDownload d) W"
    unfolding W_def d by (rule processResponse_last [OF t ff v l])
  have W: "calls W = calls w" "audios W = audios w" "languageRef W = languageRef w"
    "effects W = effects w @ (if onFieldUpdate w then [FieldUpdate (currentFieldKey w) v] else [])"
    "stop_effects W = stop_effects w" "utterance_effects W x es = utterance_effects w x es"
    "speechSynthesis W = speechSynthesis w" "pendingRecommend W = pendingRecommend w"
    "session_of W = (currentStepRef w, languageRef w, d, schemeRef w,
          onFieldUpdate w, onSchemeChange w, onDownload w)"
    "schemeIdOrUnknown W = schemeIdOrUnknown w" "onDownload W = onDownload w" for x
    by (simp_all add: W_def setStateAndRef_def addHistory_def emit_def session_of_def
        schemeIdOrUnknown_def)
  from es have es': "es \<in> set (utterance_runs (length (calls W)) (length (audios W)))"
    by (simp add: W)
  note u = utterance_ends [OF es', of Q "PHRASES_done (langCode w)" "SaveThenDownload d"]
  show "stateRef (processResponse Q t w) = SPEAKING" by (simp add: p)
  show "stateRef (run Q (processResponse Q t w) es) = LISTENING" using u(1) by (simp add: p)
  show "session_of (run Q (processResponse Q t w) es)
       = (currentStepRef w, languageRef w, d, schemeRef w,
          onFieldUpdate w, onSchemeChange w, onDownload w)"
    using u(2) by (simp add: p W)
  show "effects (run Q (processResponse Q t w) es)
       = effects w @ (if onFieldUpdate w then [FieldUpdate (currentFieldKey w) v] else [])
         @ stop_effects w
         @ [FetchSpeak (length (calls w)) (PHRASES_done (langCode w)) (languageRef w)]
         @ utterance_effects w (PHRASES_done (langCode w)) es
         @ [FetchSaveForm (schemeIdOrUnknown w) (valueOrEmpty d (js ''mobile''))
              (valueOrEmpty d (js ''aadhar'')) d]
         @ (if onDownload w then [DownloadTimer] else [])"
    using u(3) by (simp add: p W after_effects_def)
  show "length (calls (run Q (processResponse Q t w) es)) = Suc (length (calls w))"
    using u(4) by (simp add: p W)
  show "length (audios (run Q (processResponse Q t w) es)) = length (audios w)
       + (if hd es = SpeakReply (length (calls w)) AudioBlob then 1 else 0)"
    using u(5) by (simp add: p W)
  show "currentAudio (run Q (processResponse Q t w) es) = None" using u(6) by (simp add: p)
  show "speechSynthesis (run Q (processResponse Q t w) es)
       = (case speechSynthesis w of None \<Rightarrow> None | Some q \<Rightarrow> Some [])"
    using u(7) by (simp add: p W)
  show "pendingRecommend (run Q (processResponse Q t w) es) = pendingRecommend w"
    using u(8) by (simp add: p W)
qed

text \<open>The triage branch with a request that fails: the retry message is spoken, and when
  it has ended the state is \<open>LISTENING\<close>; nothing of the error is kept.\<close>

lemma triage_failure:
  assumes s: "stateRef w = TRIAGE \<or> stateRef w = IDLE" and t: "t \<noteq> []"
    and es: "es \<in> set (utterance_runs (length (calls w)) (length (audios w)))"
  shows "recommendReply Q (RequestFailed err) (processResponse Q t w)
       = recommendReply Q (RequestFailed err') (processResponse Q t w)"
    "stateRef (run Q (recommendReply Q (RequestFailed err) (processResponse Q t w)) es)
       = LISTENING"
    "session_of (run Q (recommendReply Q (RequestFailed err) (processResponse Q t w)) es)
       = session_of w"
    "effects (run Q (recommendReply Q (RequestFailed err) (processResponse Q t w)) es)
       = effects w @ [FetchRecommend t (languageRef w)] @ stop_effects w
         @ [FetchSpeak (length (calls w)) (PHRASES_retry (langCode w)) (languageRef w)]
         @ utterance_effects w (PHRASES_retry (langCode w)) es"
    "length (calls (run Q (recommendReply Q (RequestFailed err) (processResponse Q t w)) es))
       = Suc (length (calls w))"
    "length (audios (run Q (recommendReply Q (RequestFailed err) (processResponse Q t w)) es))
       = length (audios w) + (if hd es = SpeakReply (length (calls w)) AudioBlob then 1 else 0)"
    "currentAudio (run Q (recommendReply Q (RequestFailed err) (processResponse Q t w)) es)
       = None"
    "speechSynthesis (run Q (recommendReply Q (RequestFailed err) (processResponse Q t w)) es)
       = (case speechSynthesis w of None \<Rightarrow> None | Some q \<Rightarrow> Some [])"
    "pendingRecommend (run Q (recommendReply Q (RequestFailed err) (processResponse Q t w)) es)
       = pendingRecommend w"
    "conversationHistory
       (run Q (recommendReply Q (RequestFailed err) (processResponse Q t w)) es)
       = conversationHistory w @ [(USER, t), (AI, PHRASES_retry (langCode w))]"
proof -
  define W where "W = (emit (FetchRecommend t (languageRef w))
       (addHistory USER t (setStateAndRef PROCESSING w)))\<lparr>pendingRecommend := pendingRecommend w\<rparr>"
  from s have nf: "\<not> form_filling w" by (auto simp: form_filling_def)
  have w1: "processResponse Q t w = (emit (FetchRecommend t (languageRef w))
       (addHistory USER t (setStateAndRef PROCESSING w)))\<lparr>pendingRecommend := pendingRecommend w + 1\<rparr>"
    using t nf by (rule processResponse_triage)
  have W: "calls W = calls w" "audios W = audios w" "languageRef W = languageRef w"
    "effects W = effects w @ [FetchRecommend t (languageRef w)]"
    "stop_effects W = stop_effects w" "utterance_effects W x es = utterance_effects w x es"
    "speechSynthesis W = speechSynthesis w" "pendingRecommend W = pendingRecommend w"
    "session_of W = session_of w" "langCode W = langCode w"
    "conversationHistory W = conversationHistory w @ [(USER, t)]" for x
    by (simp_all add: W_def setStateAndRef_def addHistory_def emit_def langCode_def
        stop_effects_def utterance_effects_def split: option.splits)
  have r: "recommendReply Q (RequestFailed e) (processResponse Q t w)
      = startRequest (PHRASES_retry (langCode w)) NoCallback Return W" for e
    by (simp add: recommendReply_def w1 Let_def speak_nonempty PHRASES_retry_nonempty W_def
        emit_def addHistory_def setStateAndRef_def langCode_def)
  from es have es': "es \<in> set (utterance_runs (length (calls W)) (length (audios W)))"
    by (simp add: W)
  note u = utterance_ends [OF es', of Q "PHRASES_retry (langCode w)" Return]
  show "recommendReply Q (RequestFailed err) (processResponse Q t w)
       = recommendReply Q (RequestFailed err') (processResponse Q t w)"
    by (simp add: r)
  show "stateRef (run Q (recommendReply Q (RequestFailed err) (processResponse Q t w)) es)
       = LISTENING"
    using u(1) by (simp add: r)
  show "session_of (run Q (recommendReply Q (RequestFailed err) (processResponse Q t w)) es)
       = session_of w"
    using u(2) by (simp add: r W)
  show "effects (run Q (recommendReply Q (RequestFailed err) (processResponse Q t w)) es)
       = effects w @ [FetchRecommend t (languageRef w)] @ stop_effects w
         @ [FetchSpeak (length (calls w)) (PHRASES_retry (langCode w)) (languageRef w)]
         @ utterance_effects w (PHRASES_retry (langCode w)) es"
    using u(3) by (simp add: r W after_effects_def)
  show "length (calls (run Q (recommendReply Q (RequestFailed err) (processResponse Q t w)) es))
       = Suc (length (calls w))"
    using u(4) by (simp add: r W)
  show "length (audios (run Q (recommendReply Q (RequestFailed err) (processResponse Q t w)) es))
       = length (audios w) + (if hd es = SpeakReply (length (calls w)) AudioBlob then 1 else 0)"
    using u(5) by (simp add: r W)
  show "currentAudio (run Q (recommendReply Q (RequestFailed err) (processResponse Q t w)) es)
       = None"
    using u(6) by (simp add: r)
  show "speechSynthesis (run Q (recommendReply Q (RequestFailed err) (processResponse Q t w)) es)
       = (case speechSynthesis w of None \<Rightarrow> None | Some q \<Rightarrow> Some [])"
    using u(7) by (simp add: r W)
  show "pendingRecommend (run Q (recommendReply Q (RequestFailed err) (processResponse Q t w)) es)
       = pendingRecommend w"
    using u(8) by (simp add: r W)
  show "conversationHistory
       (run Q (recommendReply Q (RequestFailed err) (processResponse Q t w)) es)
       = conversationHistory w @ [(USER, t), (AI, PHRASES_retry (langCode w))]"
    using u(9) by (simp add: r W)
qed

section \<open>Concrete worlds\<close>

lemma pm_awas_fields:
  "getFieldOrder (listening_at pm_awas n) = map js [''name'', ''fatherName'',
     ''aadhar'', ''mobile'', ''income'', ''currentAddress'', ''plotSize'', ''category'']"
  by (simp add: listening_at_def initial_def getFieldOrder_def pm_awas_def)

lemma listening_at_fields [simp]:
  "stateRef (listening_at s n) = LISTENING"
  "currentStepRef (listening_at s n) = n"
  "collectedDataRef (listening_at s n) = []"
  "calls (listening_at s n) = []"
  "audios (listening_at s n) = []"
  "effects (listening_at s n) = []"
  "onFieldUpdate (listening_at s n)"
  "onDownload (listening_at s n)"
  "conversationHistory (listening_at s n) = []"
  "form_filling (listening_at s n)"
  by (simp_all add: listening_at_def initial_def form_filling_def)

lemma pm_awas_key_0: "currentFieldKey (listening_at pm_awas 0) = Some (js ''name'')"
  by (simp add: currentFieldKey_def pm_awas_fields nth_opt_def)

lemma pm_awas_key_7: "currentFieldKey (listening_at pm_awas 7) = Some (js ''category'')"
  by (simp add: currentFieldKey_def pm_awas_fields nth_opt_def)

lemma generic_name: "generic_field (Some (js ''name''))"
  by (simp add: generic_field_def js_def)

lemma extract_Rajesh_Kumar:
  "extractValue (js ''Rajesh Kumar'') (Some (js ''name'')) = Some (js ''Rajesh Kumar'')"
  by (simp add: extract_eval)

lemma extract_General:
  "extractValue (js ''General'') (Some (js ''category'')) = Some (js ''General'')"
  by (simp add: extract_eval)

lemma js_nonempty [simp]: "(js s = []) = (s = [])"
  by (simp add: js_def)

section \<open>Retry: the same question at the same step\<close>

text \<open>
  C3.  In the form-filling branch, when no value is extracted from the transcript for the
  current field, \<open>processResponse\<close> speaks the retry prompt: it stops what is playing and
  sends the prompt to \<open>/speak\<close>, and the answer is played, or the prompt is spoken by the
  local synthesizer when the request fails (nothing sounds when the request fails in a
  browser that has no synthesizer).  The step and the collected data are unchanged
  and no field update is reported, at once and when the prompt has ended; and when it has
  ended, in any of the ways an utterance ends, the question of the same step is asked
  again, as the next call of \<open>speak\<close>, and nothing else is done.  The transcript "stop"
  yields no value on any generic-text field.
\<close>

theorem retry_asks_same_step_again:
  assumes "form_filling w" and "t \<noteq> []" and "\<not> extracted t w"
    and "es \<in> set (utterance_runs (length (calls w)) (length (audios w)))"
  shows "currentStepRef (processResponse Q t w) = currentStepRef w
     \<and> collectedDataRef (processResponse Q t w) = collectedDataRef w
     \<and> filter is_field_update (effects (processResponse Q t w)) = filter is_field_update (effects w)
     \<and> stateRef (processResponse Q t w) = SPEAKING
     \<and> last (conversationHistory (processResponse Q t w)) = (AI, PHRASES_retry (langCode w))
     \<and> effects (processResponse Q t w)
         = effects w @ stop_effects w
           @ [FetchSpeak (length (calls w)) (PHRASES_retry (langCode w)) (languageRef w)]
     \<and> currentStepRef (run Q (processResponse Q t w) es) = currentStepRef w
     \<and> collectedDataRef (run Q (processResponse Q t w) es) = collectedDataRef w
     \<and> filter is_field_update (effects (run Q (processResponse Q t w) es))
         = filter is_field_update (effects w)
     \<and> effects (run Q (processResponse Q t w) es)
         = effects (processResponse Q t w)
           @ (if hd es = SpeakReply (length (calls w)) AudioBlob
              then [AudioPlay (length (audios w))]
              else (case speechSynthesis w of
                      None \<Rightarrow> []
                    | Some q \<Rightarrow>
                        [SynthCancel,
                         SynthSpeak (length (calls w)) (PHRASES_retry (langCode w))
                           (if languageRef w = [] then js ''hi-IN'' else languageRef w)]))
           @ (if currentStepRef w < length (getFieldOrder w)
              then (case speechSynthesis w of None \<Rightarrow> [] | Some q \<Rightarrow> [SynthCancel])
                   @ [FetchSpeak (Suc (length (calls w)))
                        (getQuestion Q (getFieldOrder w ! currentStepRef w) w) (languageRef w)]
              else [])
     \<and> (currentStepRef w < length (getFieldOrder w) \<longrightarrow>
          last (conversationHistory (run Q (processResponse Q t w) es))
            = (AI, getQuestion Q (getFieldOrder w ! currentStepRef w) w)
          \<and> stateRef (run Q (processResponse Q t w) es) = SPEAKING)
     \<and> (generic_field (currentFieldKey w) \<longrightarrow>
          extractValue (js ''stop'') (currentFieldKey w) = None
          \<and> \<not> extracted (js ''stop'') w)"
proof -
  have "generic_field (currentFieldKey w) \<longrightarrow>
          extractValue (js ''stop'') (currentFieldKey w) = None \<and> \<not> extracted (js ''stop'') w"
    using stop_not_extracted stop_no_match by blast
  then show ?thesis
    using retry_now [OF assms(1,2,3), of Q]
      retry_then [OF assms, of Q, unfolded utterance_effects_def] by blast
qed

theorem retry_asks_same_step_again_witness:
  "currentStepRef (processResponse no_questions (js ''stop'') (listening_at pm_awas 0)) = 0
   \<and> collectedDataRef (processResponse no_questions (js ''stop'') (listening_at pm_awas 0)) = []
   \<and> effects (processResponse no_questions (js ''stop'') (listening_at pm_awas 0))
       = [SynthCancel, FetchSpeak 0 retry_hi (js ''hi-IN'')]
   \<and> currentStepRef (run no_questions
        (processResponse no_questions (js ''stop'') (listening_at pm_awas 0))
        [SpeakReply 0 AudioBlob, AudioEnded 0]) = 0
   \<and> effects (run no_questions
        (processResponse no_questions (js ''stop'') (listening_at pm_awas 0))
        [SpeakReply 0 AudioBlob, AudioEnded 0])
       = [SynthCancel, FetchSpeak 0 retry_hi (js ''hi-IN''), AudioPlay 0,
          SynthCancel, FetchSpeak 1 (js ''Please tell me your name'') (js ''hi-IN'')]
   \<and> last (conversationHistory (run no_questions
        (processResponse no_questions (js ''stop'') (listening_at pm_awas 0))
        [SpeakReply 0 AudioBlob, AudioEnded 0])) = (AI, js ''Please tell me your name'')"
proof -
  let ?w = "listening_at pm_awas 0"
  have g: "generic_field (currentFieldKey ?w)" by (simp add: pm_awas_key_0 generic_name)
  have h: "form_filling ?w" "js ''stop'' \<noteq> []"
    "[SpeakReply 0 AudioBlob, AudioEnded 0] \<in> set (utterance_runs (length (calls ?w)) (length (audios ?w)))"
    "currentStepRef ?w < length (getFieldOrder ?w)"
    by (simp_all add: utterance_runs_def pm_awas_fields)
  have q: "getQuestion no_questions (getFieldOrder ?w ! currentStepRef ?w) ?w
      = js ''Please tell me your name''"
    by (simp add: getQuestion_def no_questions_def truthy_def pm_awas_fields js_def)
  have n: "\<not> extracted (js ''stop'') ?w"
    using g by (rule stop_not_extracted)
  have m: "stop_effects ?w = [SynthCancel]" "speechSynthesis ?w = Some []"
    "languageRef ?w = js ''hi-IN''" "PHRASES_retry (langCode ?w) = retry_hi"
    by (simp_all add: listening_at_def initial_def stop_effects_def utterance_effects_def
        PHRASES_retry_def langCode_def js_def)
  from retry_asks_same_step_again [OF h(1,2) n h(3), of no_questions] h(4) q m
  show ?thesis by simp
qed

section \<open>The step never decreases\<close>

text \<open>
  C4 (as amended).  No event other than \<open>startConversation\<close>, which sets it to 0, decreases
  the step: every other event leaves it or adds one, so it never decreases along any
  sequence of them.  \<open>processResponse\<close> adds one on a successful extraction when a further
  field remains, and leaves the step as it is otherwise: on a failed extraction, in the
  triage branch, and on the successful extraction for the last field.
\<close>

theorem step_never_decreases:
  "(\<forall>e. \<not> is_restart e \<longrightarrow>
        currentStepRef (handle Q w e) = currentStepRef w
        \<or> currentStepRef (handle Q w e) = currentStepRef w + 1)
   \<and> (\<forall>es. (\<forall>e \<in> set es. \<not> is_restart e) \<longrightarrow> currentStepRef w \<le> currentStepRef (run Q w es))
   \<and> currentStepRef (processResponse Q t w) =
        (if t \<noteq> [] \<and> form_filling w \<and> extracted t w
            \<and> currentStepRef w + 1 < length (getFieldOrder w)
         then currentStepRef w + 1 else currentStepRef w)
   \<and> currentStepRef (startConversation Q lang greeting w) = 0"
  using step_handle step_run_mono step_processResponse step_startConversation by blast

text \<open>The last field of a form (step 7 of 8): the value is extracted and the step stays.\<close>

theorem last_field_step_unchanged_counterexample:
  "extractValue (js ''General'') (currentFieldKey (listening_at pm_awas 7)) = Some (js ''General'')
   \<and> currentStepRef (listening_at pm_awas 7) = 7
   \<and> currentStepRef (processResponse no_questions (js ''General'') (listening_at pm_awas 7)) = 7"
  by (simp add: step_processResponse pm_awas_fields pm_awas_key_7 extract_General)

theorem step_never_decreases_witness:
  "currentStepRef (handle no_questions (listening_at pm_awas 0) (Transcript (js ''Rajesh Kumar''))) = 1
   \<and> currentStepRef (listening_at pm_awas 0)
       \<le> currentStepRef (run no_questions (listening_at pm_awas 0)
            [Transcript (js ''Rajesh Kumar''), SpeakReply 0 AudioBlob])"
proof -
  let ?w = "listening_at pm_awas 0"
  have e: "extracted (js ''Rajesh Kumar'') ?w"
    by (simp add: extracted_def pm_awas_key_0 extract_Rajesh_Kumar)
  have r: "\<forall>e \<in> set [Transcript (js ''Rajesh Kumar''), SpeakReply 0 AudioBlob]. \<not> is_restart e"
    by (simp add: is_restart_def)
  from step_never_decreases [of no_questions ?w "js ''Rajesh Kumar''"] e r
  show ?thesis by (simp add: pm_awas_fields)
qed

section \<open>Triage: a failed request\<close>

lemma extract_crops:
  "extractValue (js ''my crops failed'') None = Some (js ''my crops failed'')"
  by (simp add: extract_eval)

lemma no_scheme_key:
  "schemeRef w = None \<Longrightarrow> currentFieldKey w = None \<and> getFieldOrder w = []"
  by (simp add: currentFieldKey_def getFieldOrder_def nth_opt_def)

text \<open>
  C7.  The hook with no scheme, before \<open>startConversation\<close> (state \<open>IDLE\<close>): a typed message
  is sent to \<open>/recommend-scheme\<close> and the request fails.  The retry message is requested
  from \<open>/speak\<close> and played, no scheme is set or reported and nothing of the error is kept;
  when the message has ended the state is \<open>LISTENING\<close>.  The next message is then not sent
  to \<open>/recommend-scheme\<close>: it is taken by the form-filling branch, with no scheme and so no
  field, stored as the value of the key "undefined" and reported as a field update; the
  closing message is spoken, the form is saved and the download timer is set.  Another
  error of the request gives the same.
\<close>

theorem triage_failure_leaves_triage:
  "(let w1 = run Q (initial None True)
               [Transcript (js ''my crops failed''),
                RecommendReply (RequestFailed (js ''Failed to fetch'')),
                SpeakReply 0 AudioBlob, AudioEnded 0];
        w2 = run Q w1
               [Transcript (js ''my crops failed''), SpeakReply 1 AudioBlob, AudioEnded 1]
    in effects w1 = [FetchRecommend (js ''my crops failed'') (js ''hi-IN''), SynthCancel,
                     FetchSpeak 0 retry_hi (js ''hi-IN''), AudioPlay 0]
       \<and> stateRef w1 = LISTENING \<and> schemeRef w1 = None \<and> collectedDataRef w1 = []
       \<and> pendingRecommend w1 = 0
       \<and> w1 = run Q (initial None True)
               [Transcript (js ''my crops failed''), RecommendReply (RequestFailed []),
                SpeakReply 0 AudioBlob, AudioEnded 0]
       \<and> effects w2 = effects w1
            @ [FieldUpdate None (js ''my crops failed''), SynthCancel,
               FetchSpeak 1 done_hi (js ''hi-IN''), AudioPlay 1,
               FetchSaveForm (js ''unknown'') [] []
                 [(js ''undefined'', js ''my crops failed'')],
               DownloadTimer]
       \<and> collectedDataRef w2 = [(js ''undefined'', js ''my crops failed'')]
       \<and> schemeRef w2 = None \<and> stateRef w2 = LISTENING)"
proof -
  let ?t = "js ''my crops failed''"
  let ?w = "initial None True"
  let ?E1 = "[SpeakReply 0 AudioBlob, AudioEnded 0]"
  let ?E2 = "[SpeakReply 1 AudioBlob, AudioEnded 1]"
  define w1 where "w1 = run Q (recommendReply Q (RequestFailed (js ''Failed to fetch''))
      (processResponse Q ?t ?w)) ?E1"
  define w2 where "w2 = run Q (processResponse Q ?t w1) ?E2"
  have r1: "run Q ?w [Transcript ?t, RecommendReply (RequestFailed (js ''Failed to fetch'')),
      SpeakReply 0 AudioBlob, AudioEnded 0] = w1"
    by (simp add: run_def w1_def)
  have r2: "run Q w1 [Transcript ?t, SpeakReply 1 AudioBlob, AudioEnded 1] = w2"
    by (simp add: run_def w2_def)
  have r3: "run Q ?w [Transcript ?t, RecommendReply (RequestFailed []),
      SpeakReply 0 AudioBlob, AudioEnded 0]
      = run Q (recommendReply Q (RequestFailed []) (processResponse Q ?t ?w)) ?E1"
    by (simp add: run_def)
  have i: "stateRef ?w = TRIAGE \<or> stateRef ?w = IDLE" "?t \<noteq> []"
    "?E1 \<in> set (utterance_runs (length (calls ?w)) (length (audios ?w)))"
    by (simp_all add: initial_def utterance_runs_def)
  have i0: "effects ?w = []" "stop_effects ?w = [SynthCancel]" "languageRef ?w = js ''hi-IN''"
    "langCode ?w = js ''hi''" "pendingRecommend ?w = 0" "speechSynthesis ?w = Some []"
    "utterance_effects ?w x ?E1 = [AudioPlay 0]" "length (calls ?w) = 0" "length (audios ?w) = 0"
    "session_of ?w = (0, js ''hi-IN'', [], None, True, True, True)" for x
    by (simp_all add: initial_def stop_effects_def utterance_effects_def langCode_def js_def
        session_of_def)
  have ph: "PHRASES_retry (js ''hi'') = retry_hi" "PHRASES_done (js ''hi'') = done_hi"
    by (simp_all add: PHRASES_retry_def PHRASES_done_def js_def)
  note a = triage_failure [OF i, of Q "js ''Failed to fetch''", folded w1_def]
  have s1: "session_of w1 = (0, js ''hi-IN'', [], None, True, True, True)"
    using a(3) by (simp add: i0)
  then have f1: "currentStepRef w1 = 0" "languageRef w1 = js ''hi-IN''" "collectedDataRef w1 = []"
    "schemeRef w1 = None" "onFieldUpdate w1" "onDownload w1" "onSchemeChange w1"
    by (simp_all add: session_of_def)
  have e1: "effects w1 = [FetchRecommend ?t (js ''hi-IN''), SynthCancel,
                     FetchSpeak 0 retry_hi (js ''hi-IN''), AudioPlay 0]"
    using a(4) by (simp add: i0 ph)
  have m1: "stateRef w1 = LISTENING" "length (calls w1) = 1" "length (audios w1) = 1"
    "currentAudio w1 = None" "speechSynthesis w1 = Some []" "pendingRecommend w1 = 0"
    using a(2,5,6,7,8,9) by (simp_all add: i0)
  have k1: "currentFieldKey w1 = None" "getFieldOrder w1 = []"
    using no_scheme_key [OF f1(4)] by simp_all
  have j: "form_filling w1" "extractValue ?t (currentFieldKey w1) = Some ?t"
    "\<not> currentStepRef w1 + 1 < length (getFieldOrder w1)"
    "?E2 \<in> set (utterance_runs (length (calls w1)) (length (audios w1)))"
    by (simp_all add: form_filling_def m1 k1 extract_crops f1 utterance_runs_def)
  have j1: "stop_effects w1 = [SynthCancel]" "langCode w1 = js ''hi''"
    "utterance_effects w1 x [SpeakReply (Suc 0) AudioBlob, AudioEnded (Suc 0)] = [AudioPlay 1]"
    "schemeIdOrUnknown w1 = js ''unknown''" for x
    by (simp_all add: stop_effects_def utterance_effects_def langCode_def m1 f1
        schemeIdOrUnknown_def) (simp add: js_def)
  have d: "AList.update (property_key (currentFieldKey w1)) ?t (collectedDataRef w1)
      = [(js ''undefined'', ?t)]"
    by (simp add: k1 f1 property_key_def)
  have vo: "valueOrEmpty [(js ''undefined'', ?t)] (js ''mobile'') = []"
    "valueOrEmpty [(js ''undefined'', ?t)] (js ''aadhar'') = []"
    by (simp_all add: valueOrEmpty_def js_def)
  note b = last_turn [OF j(1) i(2) j(2) i(2) j(3,4) d [symmetric], of Q, folded w2_def]
  have e2: "effects w2 = effects w1
            @ [FieldUpdate None ?t, SynthCancel,
               FetchSpeak 1 done_hi (js ''hi-IN''), AudioPlay 1,
               FetchSaveForm (js ''unknown'') [] [] [(js ''undefined'', ?t)],
               DownloadTimer]"
    using b(4) by (simp add: f1 k1 j1 m1 ph vo)
  have s2: "collectedDataRef w2 = [(js ''undefined'', ?t)]" "schemeRef w2 = None"
    using b(3) by (simp_all add: session_of_def f1)
  have same: "w1 = run Q ?w [Transcript ?t, RecommendReply (RequestFailed []),
      SpeakReply 0 AudioBlob, AudioEnded 0]"
    unfolding r3 w1_def
    using triage_failure(1) [OF i, of Q "js ''Failed to fetch''" "[]"] by simp
  show ?thesis
    unfolding Let_def r1 r2 using e1 m1(1,6) f1(3,4) e2 s2 b(2) same by simp
qed

section \<open>A form answered field by field\<close>

lemma outward_media [simp]:
  "outward (stop_effects w) = []" "outward (utterance_effects w t es) = []"
  by (simp_all add: outward_def stop_effects_def utterance_effects_def is_speech_effect_def
      split: option.splits)

lemma outward_FetchSpeak [simp]: "outward (FetchSpeak n t l # es) = outward es"
  by (simp add: outward_def is_speech_effect_def)

text \<open>A call of \<open>speak\<close> whose closure asks the question of step \<open>s\<close>: the utterance, then
  the question, each from its request to its end.\<close>

lemma ask_turn:
  assumes s: "s < length (getFieldOrder w)"
    and es1: "es1 \<in> set (utterance_runs (length (calls w)) (length (audios w)))"
    and es2: "es2 \<in> set (utterance_runs (Suc (length (calls w)))
        (length (audios w) + (if hd es1 = SpeakReply (length (calls w)) AudioBlob then 1 else 0)))"
  shows "stateRef (run Q (startRequest t (AskNext s) Return w) (es1 @ es2)) = LISTENING"
    "session_of (run Q (startRequest t (AskNext s) Return w) (es1 @ es2)) = session_of w"
    "outward (effects (run Q (startRequest t (AskNext s) Return w) (es1 @ es2)))
       = outward (effects w)"
    "length (calls (run Q (startRequest t (AskNext s) Return w) (es1 @ es2)))
       = length (calls w) + 2"
    "length (audios (run Q (startRequest t (AskNext s) Return w) (es1 @ es2)))
       = length (audios w)
         + (if hd es1 = SpeakReply (length (calls w)) AudioBlob then 1 else 0)
         + (if hd es2 = SpeakReply (Suc (length (calls w))) AudioBlob then 1 else 0)"
    "pendingRecommend (run Q (startRequest t (AskNext s) Return w) (es1 @ es2))
       = pendingRecommend w"
proof -
  from utterance_run [OF es1, of Return "AskNext s" Q t]
  obtain X where X: "run Q (startRequest t (AskNext s) Return w) es1 = askNextQuestion Q s X"
    "session_of X = session_of w" "outward (effects X) = outward (effects w)"
    "pendingRecommend X = pendingRecommend w" "length (calls X) = Suc (length (calls w))"
    "length (audios X) = length (audios w)
       + (if hd es1 = SpeakReply (length (calls w)) AudioBlob then 1 else 0)"
    by (auto simp: after_effects_def)
  have f: "getFieldOrder X = getFieldOrder w" using X(2) by (rule getFieldOrder_session)
  define q where "q = getQuestion Q (getFieldOrder X ! s) X"
  have a: "askNextQuestion Q s X = startRequest q NoCallback Return X"
    unfolding q_def using s by (simp add: askNext_asks f)
  have r: "run Q (startRequest t (AskNext s) Return w) (es1 @ es2)
      = run Q (startRequest q NoCallback Return X) es2"
    by (simp add: run_append X(1) a)
  from es2 have es2': "es2 \<in> set (utterance_runs (length (calls X)) (length (audios X)))"
    by (simp add: X(5,6))
  note u = utterance_ends [OF es2', of Q q Return]
  show "stateRef (run Q (startRequest t (AskNext s) Return w) (es1 @ es2)) = LISTENING"
    using u(1) by (simp add: r)
  show "session_of (run Q (startRequest t (AskNext s) Return w) (es1 @ es2)) = session_of w"
    using u(2) by (simp add: r X(2))
  show "outward (effects (run Q (startRequest t (AskNext s) Return w) (es1 @ es2)))
       = outward (effects w)"
    using arg_cong [OF u(3), of outward] by (simp add: r X(3) after_effects_def)
  show "length (calls (run Q (startRequest t (AskNext s) Return w) (es1 @ es2)))
       = length (calls w) + 2"
    using u(4) by (simp add: r X(5))
  show "length (audios (run Q (startRequest t (AskNext s) Return w) (es1 @ es2)))
       = length (audios w)
         + (if hd es1 = SpeakReply (length (calls w)) AudioBlob then 1 else 0)
         + (if hd es2 = SpeakReply (Suc (length (calls w))) AudioBlob then 1 else 0)"
    using u(5) by (simp add: r X(5,6))
  show "pendingRecommend (run Q (startRequest t (AskNext s) Return w) (es1 @ es2))
       = pendingRecommend w"
    using u(8) by (simp add: r X(4))
qed

text \<open>The turn of a field that is not the last: the value is stored and reported, the
  step is raised, the acknowledgement is spoken and then the next question.\<close>

lemma advance_turn:
  assumes ff: "form_filling w" and t: "t \<noteq> []"
    and v: "extractValue t (currentFieldKey w) = Some v" "v \<noteq> []"
    and adv: "currentStepRef w + 1 < length (getFieldOrder w)"
    and es1: "es1 \<in> set (utterance_runs (length (calls w)) (length (audios w)))"
    and es2: "es2 \<in> set (utterance_runs (Suc (length (calls w)))
        (length (audios w) + (if hd es1 = SpeakReply (length (calls w)) AudioBlob then 1 else 0)))"
    and d: "d = AList.update (property_key (currentFieldKey w)) v (collectedDataRef w)"
  shows "stateRef (run Q (processResponse Q t w) (es1 @ es2)) = LISTENING"
    "session_of (run Q (processResponse Q t w) (es1 @ es2))
       = (currentStepRef w + 1, languageRef w, d, schemeRef w,
          onFieldUpdate w, onSchemeChange w, onDownload w)"
    "outward (effects (run Q (processResponse Q t w) (es1 @ es2)))
       = outward (effects w)
         @ (if onFieldUpdate w then [FieldUpdate (currentFieldKey w) v] else [])"
    "length (calls (run Q (processResponse Q t w) (es1 @ es2))) = length (calls w) + 2"
    "length (audios (run Q (processResponse Q t w) (es1 @ es2)))
       = length (audios w)
         + (if hd es1 = SpeakReply (length (calls w)) AudioBlob then 1 else 0)
         + (if hd es2 = SpeakReply (Suc (length (calls w))) AudioBlob then 1 else 0)"
    "pendingRecommend (run Q (processResponse Q t w) (es1 @ es2)) = pendingRecommend w"
proof -
  define W where "W = setStepAndRef (currentStepRef w + 1)
          ((if onFieldUpdate w then emit (FieldUpdate (currentFieldKey w) v) else id)
             ((addHistory USER t (setStateAndRef PROCESSING w))\<lparr>collectedDataRef := d\<rparr>))"
  have p: "processResponse Q t w
      = startRequest (PHRASES_gotIt (langCode w) v) (AskNext (currentStepRef w + 1)) Return W"
    unfolding W_def d by (rule processResponse_advance [OF t ff v adv])
  have W: "calls W = calls w" "audios W = audios w"
    "outward (effects W) = outward (effects w)
       @ (if onFieldUpdate w then [FieldUpdate (currentFieldKey w) v] else [])"
    "pendingRecommend W = pendingRecommend w"
    "session_of W = (currentStepRef w + 1, languageRef w, d, schemeRef w,
          onFieldUpdate w, onSchemeChange w, onDownload w)"
    "getFieldOrder W = getFieldOrder w"
    by (simp_all add: W_def setStateAndRef_def setStepAndRef_def addHistory_def emit_def
        session_of_def outward_def is_speech_effect_def getFieldOrder_def)
  from adv have s': "currentStepRef w + 1 < length (getFieldOrder W)" by (simp add: W)
  from es1 have es1': "es1 \<in> set (utterance_runs (length (calls W)) (length (audios W)))"
    by (simp add: W)
  from es2 have es2': "es2 \<in> set (utterance_runs (Suc (length (calls W)))
        (length (audios W) + (if hd es1 = SpeakReply (length (calls W)) AudioBlob then 1 else 0)))"
    by (simp add: W)
  note a = ask_turn [OF s' es1' es2', of Q "PHRASES_gotIt (langCode w) v"]
  show "stateRef (run Q (processResponse Q t w) (es1 @ es2)) = LISTENING"
    using a(1) by (simp add: p)
  show "session_of (run Q (processResponse Q t w) (es1 @ es2))
       = (currentStepRef w + 1, languageRef w, d, schemeRef w,
          onFieldUpdate w, onSchemeChange w, onDownload w)"
    using a(2) by (simp add: p W)
  show "outward (effects (run Q (processResponse Q t w) (es1 @ es2)))
       = outward (effects w)
         @ (if onFieldUpdate w then [FieldUpdate (currentFieldKey w) v] else [])"
    using a(3) by (simp add: p W)
  show "length (calls (run Q (processResponse Q t w) (es1 @ es2))) = length (calls w) + 2"
    using a(4) by (simp add: p W)
  show "length (audios (run Q (processResponse Q t w) (es1 @ es2)))
       = length (audios w)
         + (if hd es1 = SpeakReply (length (calls w)) AudioBlob then 1 else 0)
         + (if hd es2 = SpeakReply (Suc (length (calls w))) AudioBlob then 1 else 0)"
    using a(5) by (simp add: p W)
  show "pendingRecommend (run Q (processResponse Q t w) (es1 @ es2)) = pendingRecommend w"
    using a(6) by (simp add: p W)
qed

lemma at_step_fields:
  assumes "at_step w i d n fu"
  shows "getFieldOrder w = map js [''name'', ''fatherName'',
     ''aadhar'', ''mobile'', ''income'', ''currentAddress'', ''plotSize'', ''category'']"
    "form_filling w" "currentStepRef w = i" "collectedDataRef w = d" "languageRef w = js ''hi-IN''"
    "schemeRef w = Some pm_awas" "onFieldUpdate w" "onDownload w" "onSchemeChange w"
    "length (calls w) = n" "length (audios w) = n" "outward (effects w) = fu"
  using assms
  by (simp_all add: at_step_def session_of_def getFieldOrder_def pm_awas_def form_filling_def)

lemma start_at:
  "g \<noteq> [] \<Longrightarrow>
   at_step (run Q (initial (Some pm_awas) True)
      [StartConversation (js ''hi-IN'') g, SpeakReply 0 AudioBlob, AudioEnded 0,
       SpeakReply 1 AudioBlob, AudioEnded 1]) 0 [] 2 []"
proof -
  assume g: "g \<noteq> []"
  let ?w = "initial (Some pm_awas) True"
  have i: "?w\<lparr>languageRef := js ''hi-IN'', conversationHistory := [],
          currentStepRef := 0, collectedDataRef := []\<rparr> = ?w"
    by (simp add: initial_def)
  have s: "startConversation Q (js ''hi-IN'') g ?w = startRequest g (AskNext 0) Return ?w"
    using g by (simp add: startConversation_def Let_def speak_nonempty i) (simp add: initial_def)
  have w: "length (calls ?w) = 0" "length (audios ?w) = 0" "effects ?w = []"
    "session_of ?w = (0, js ''hi-IN'', [], Some pm_awas, True, True, True)"
    "0 < length (getFieldOrder ?w)"
    by (simp_all add: initial_def session_of_def getFieldOrder_def pm_awas_def)
  have es: "[SpeakReply 0 AudioBlob, AudioEnded 0]
      \<in> set (utterance_runs (length (calls ?w)) (length (audios ?w)))"
    "[SpeakReply 1 AudioBlob, AudioEnded 1] \<in> set (utterance_runs (Suc (length (calls ?w)))
        (length (audios ?w)
         + (if hd [SpeakReply 0 AudioBlob, AudioEnded 0] = SpeakReply (length (calls ?w)) AudioBlob
            then 1 else 0)))"
    by (simp_all add: w utterance_runs_def)
  note a = ask_turn [OF w(5) es, of Q g]
  have r: "run Q ?w [StartConversation (js ''hi-IN'') g, SpeakReply 0 AudioBlob, AudioEnded 0,
       SpeakReply 1 AudioBlob, AudioEnded 1]
      = run Q (startRequest g (AskNext 0) Return ?w)
          ([SpeakReply 0 AudioBlob, AudioEnded 0] @ [SpeakReply 1 AudioBlob, AudioEnded 1])"
    by (simp add: run_def s)
  show ?thesis
    unfolding r at_step_def using a by (simp add: w outward_def)
qed

lemma advance_at:
  assumes at: "at_step w i d n fu" and i: "i + 1 < 8" and t: "t \<noteq> []"
    and v: "extractValue t (Some (map js [''name'', ''fatherName'',
       ''aadhar'', ''mobile'', ''income'', ''currentAddress'', ''plotSize'', ''category''] ! i))
       = Some v" "v \<noteq> []"
  shows "at_step (run Q w (answer n t)) (i + 1)
       (AList.update (map js [''name'', ''fatherName'',
          ''aadhar'', ''mobile'', ''income'', ''currentAddress'', ''plotSize'', ''category''] ! i) v d)
       (n + 2)
       (fu @ [FieldUpdate (Some (map js [''name'', ''fatherName'',
          ''aadhar'', ''mobile'', ''income'', ''currentAddress'', ''plotSize'', ''category''] ! i)) v])"
proof -
  let ?fs = "map js [''name'', ''fatherName'',
     ''aadhar'', ''mobile'', ''income'', ''currentAddress'', ''plotSize'', ''category'']"
  note f = at_step_fields [OF at]
  have k: "currentFieldKey w = Some (?fs ! i)"
    using i by (simp add: currentFieldKey_def nth_opt_def f(1,3))
  have v': "extractValue t (currentFieldKey w) = Some v" using v(1) by (simp only: k)
  have adv: "currentStepRef w + 1 < length (getFieldOrder w)" using i by (simp add: f(1,3))
  have es: "[SpeakReply n AudioBlob, AudioEnded n]
      \<in> set (utterance_runs (length (calls w)) (length (audios w)))"
    "[SpeakReply (Suc n) AudioBlob, AudioEnded (Suc n)]
      \<in> set (utterance_runs (Suc (length (calls w)))
        (length (audios w)
         + (if hd [SpeakReply n AudioBlob, AudioEnded n] = SpeakReply (length (calls w)) AudioBlob
            then 1 else 0)))"
    by (simp_all add: f(10,11) utterance_runs_def)
  note a = advance_turn [OF f(2) t v' v(2) adv es refl, of Q]
  have r: "run Q w (answer n t) = run Q (processResponse Q t w)
      ([SpeakReply n AudioBlob, AudioEnded n]
       @ [SpeakReply (Suc n) AudioBlob, AudioEnded (Suc n)])"
    by (simp add: run_def answer_def)
  show ?thesis
    unfolding r at_step_def using a
    by (simp add: f(3,4,5,6,7,8,9,10,11,12) k property_key_def)
qed

lemma js_eq_iff: "(js a = js b) = (a = b)"
proof -
  have "inj (of_char :: char \<Rightarrow> nat)" by (rule injI) simp
  then show ?thesis by (simp add: js_def inj_map_eq_map)
qed

lemma outward_Cons [simp]:
  "outward (FieldUpdate k v # es) = FieldUpdate k v # outward es"
  "outward (FetchSaveForm i m a d # es) = FetchSaveForm i m a d # outward es"
  "outward (DownloadTimer # es) = DownloadTimer # outward es"
  "outward [] = []"
  by (simp_all add: outward_def is_speech_effect_def)

lemma advance_to:
  assumes "at_step w i d n fu" and "i + 1 < 8" and "t \<noteq> []"
    and "extractValue t (Some (map js [''name'', ''fatherName'',
       ''aadhar'', ''mobile'', ''income'', ''currentAddress'', ''plotSize'', ''category''] ! i))
       = Some v" and "v \<noteq> []"
    and "w' = run Q w (answer n t)" and "i' = i + 1" and "n' = n + 2"
    and "d' = AList.update (map js [''name'', ''fatherName'',
          ''aadhar'', ''mobile'', ''income'', ''currentAddress'', ''plotSize'', ''category''] ! i) v d"
    and "fu' = fu @ [FieldUpdate (Some (map js [''name'', ''fatherName'',
          ''aadhar'', ''mobile'', ''income'', ''currentAddress'', ''plotSize'', ''category''] ! i)) v]"
  shows "at_step w' i' d' n' fu'"
  using advance_at [OF assms(1-5), of Q] assms(6-10) by simp

lemma filter_outward:
  "(\<And>e. P e \<Longrightarrow> \<not> is_speech_effect e) \<Longrightarrow> filter P es = filter P (outward es)"
  by (induction es) (auto simp: outward_def)

lemma last_at:
  assumes at: "at_step w 7 d n fu" and t: "t \<noteq> []"
    and v: "extractValue t (Some (js ''category'')) = Some v" "v \<noteq> []"
    and d': "d' = AList.update (js ''category'') v d"
  shows "stateRef (processResponse Q t w) = SPEAKING"
    "stateRef (run Q w (last_answer n t)) = LISTENING"
    "collectedDataRef (run Q w (last_answer n t)) = d'"
    "outward (effects (run Q w (last_answer n t)))
       = fu @ [FieldUpdate (Some (js ''category'')) v,
               FetchSaveForm (js ''unknown'') (valueOrEmpty d' (js ''mobile''))
                 (valueOrEmpty d' (js ''aadhar'')) d',
               DownloadTimer]"
proof -
  note f = at_step_fields [OF at]
  have k: "currentFieldKey w = Some (js ''category'')"
    by (simp add: currentFieldKey_def nth_opt_def f(1,3))
  have v': "extractValue t (currentFieldKey w) = Some v" using v(1) by (simp only: k)
  have l: "\<not> currentStepRef w + 1 < length (getFieldOrder w)" by (simp add: f(1,3))
  have es: "[SpeakReply n AudioBlob, AudioEnded n]
      \<in> set (utterance_runs (length (calls w)) (length (audios w)))"
    by (simp add: f(10,11) utterance_runs_def)
  have dd: "d' = AList.update (property_key (currentFieldKey w)) v (collectedDataRef w)"
    by (simp add: d' k property_key_def f(4))
  note a = last_turn [OF f(2) t v' v(2) l es dd, of Q]
  have r: "run Q w (last_answer n t)
      = run Q (processResponse Q t w) [SpeakReply n AudioBlob, AudioEnded n]"
    by (simp add: run_def last_answer_def)
  have u: "schemeIdOrUnknown w = js ''unknown''"
    by (simp add: schemeIdOrUnknown_def f(6) pm_awas_def truthy_def)
  show "stateRef (processResponse Q t w) = SPEAKING" by (rule a(1))
  show "stateRef (run Q w (last_answer n t)) = LISTENING" unfolding r by (rule a(2))
  show "collectedDataRef (run Q w (last_answer n t)) = d'"
    unfolding r using a(3) by (simp add: session_of_def)
  show "outward (effects (run Q w (last_answer n t)))
       = fu @ [FieldUpdate (Some (js ''category'')) v,
               FetchSaveForm (js ''unknown'') (valueOrEmpty d' (js ''mobile''))
                 (valueOrEmpty d' (js ''aadhar'')) d',
               DownloadTimer]"
    unfolding r using arg_cong [OF a(4), of outward]
    by (simp add: f(7,8,12) k u)
qed

lemma extract_answers:
  "extractValue (js ''Rajesh Kumar'') (Some (js ''name'')) = Some (js ''Rajesh Kumar'')"
  "extractValue (js ''Suresh Kumar'') (Some (js ''fatherName'')) = Some (js ''Suresh Kumar'')"
  "extractValue (js ''1234 5678 9012'') (Some (js ''aadhar'')) = Some (js ''1234 5678 9012'')"
  "extractValue (js ''9876543210'') (Some (js ''mobile'')) = Some (js ''9876543210'')"
  "extractValue (js ''50000'') (Some (js ''income'')) = Some (js ''50000'')"
  "extractValue (js ''Anand Gujarat'') (Some (js ''currentAddress'')) = Some (js ''Anand Gujarat'')"
  "extractValue (js ''100'') (Some (js ''plotSize'')) = Some (js ''100'')"
  "extractValue (js ''General'') (Some (js ''category'')) = Some (js ''General'')"
  by (simp_all add: extract_eval)

text \<open>
  C2.  The form \<open>pm_awas\<close> of the page, from the first render: the conversation is started
  and each of the eight questions is answered with a transcript that yields a value, every
  utterance being played to its end.  The eight values are stored under the keys of the
  field order and reported, one \<open>/save-form\<close> request is sent and one download timer is
  set.  The state is \<open>SPEAKING\<close> as soon as the last answer is processed, and \<open>LISTENING\<close>
  when the closing message has ended: the value \<open>COMPLETED\<close> that \<open>processResponse\<close> sets is
  overwritten by the call of \<open>speak\<close> that follows it.
\<close>

theorem answered_form_ends_listening:
  "(let w = run Q (initial (Some pm_awas) True)
              ([StartConversation (js ''hi-IN'') (js ''Namaste''),
                SpeakReply 0 AudioBlob, AudioEnded 0, SpeakReply 1 AudioBlob, AudioEnded 1]
               @ answer 2 (js ''Rajesh Kumar'') @ answer 4 (js ''Suresh Kumar'')
               @ answer 6 (js ''1234 5678 9012'') @ answer 8 (js ''9876543210'')
               @ answer 10 (js ''50000'') @ answer 12 (js ''Anand Gujarat'')
               @ answer 14 (js ''100''));
        data = [(js ''name'', js ''Rajesh Kumar''), (js ''fatherName'', js ''Suresh Kumar''),
                (js ''aadhar'', js ''1234 5678 9012''), (js ''mobile'', js ''9876543210''),
                (js ''income'', js ''50000''), (js ''currentAddress'', js ''Anand Gujarat''),
                (js ''plotSize'', js ''100''), (js ''category'', js ''General'')]
    in stateRef w = LISTENING \<and> currentStepRef w = 7
       \<and> stateRef (run Q w [Transcript (js ''General'')]) = SPEAKING
       \<and> stateRef (run Q w (last_answer 16 (js ''General''))) = LISTENING
       \<and> collectedDataRef (run Q w (last_answer 16 (js ''General''))) = data
       \<and> map fst data = getFieldOrder w
       \<and> outward (effects (run Q w (last_answer 16 (js ''General''))))
           = map (\<lambda>(k, v). FieldUpdate (Some k) v) data
             @ [FetchSaveForm (js ''unknown'') (js ''9876543210'') (js ''1234 5678 9012'') data,
                DownloadTimer]
       \<and> filter is_save (effects (run Q w (last_answer 16 (js ''General''))))
           = [FetchSaveForm (js ''unknown'') (js ''9876543210'') (js ''1234 5678 9012'') data]
       \<and> filter is_download (effects (run Q w (last_answer 16 (js ''General''))))
           = [DownloadTimer])"
proof -
  define W0 where "W0 = run Q (initial (Some pm_awas) True)
      [StartConversation (js ''hi-IN'') (js ''Namaste''),
       SpeakReply 0 AudioBlob, AudioEnded 0, SpeakReply 1 AudioBlob, AudioEnded 1]"
  define W1 where "W1 = run Q W0 (answer 2 (js ''Rajesh Kumar''))"
  define W2 where "W2 = run Q W1 (answer 4 (js ''Suresh Kumar''))"
  define W3 where "W3 = run Q W2 (answer 6 (js ''1234 5678 9012''))"
  define W4 where "W4 = run Q W3 (answer 8 (js ''9876543210''))"
  define W5 where "W5 = run Q W4 (answer 10 (js ''50000''))"
  define W6 where "W6 = run Q W5 (answer 12 (js ''Anand Gujarat''))"
  define W7 where "W7 = run Q W6 (answer 14 (js ''100''))"
  define X where "X = run Q W7 (last_answer 16 (js ''General''))"
  let ?data = "[(js ''name'', js ''Rajesh Kumar''), (js ''fatherName'', js ''Suresh Kumar''),
                (js ''aadhar'', js ''1234 5678 9012''), (js ''mobile'', js ''9876543210''),
                (js ''income'', js ''50000''), (js ''currentAddress'', js ''Anand Gujarat''),
                (js ''plotSize'', js ''100''), (js ''category'', js ''General'')]"
  have a0: "at_step W0 0 [] 2 []"
    unfolding W0_def by (rule start_at) simp
  have a1: "at_step W1 1 (take 1 ?data) 4 (map (\<lambda>(k, v). FieldUpdate (Some k) v) (take 1 ?data))"
    by (rule advance_to [OF a0, where t = "js ''Rajesh Kumar''" and v = "js ''Rajesh Kumar''"
        and Q = Q])
       (simp_all add: extract_answers W1_def js_eq_iff)
  have a2: "at_step W2 2 (take 2 ?data) 6 (map (\<lambda>(k, v). FieldUpdate (Some k) v) (take 2 ?data))"
    by (rule advance_to [OF a1, where t = "js ''Suresh Kumar''" and v = "js ''Suresh Kumar''"
        and Q = Q])
       (simp_all add: extract_answers W2_def js_eq_iff)
  have a3: "at_step W3 3 (take 3 ?data) 8 (map (\<lambda>(k, v). FieldUpdate (Some k) v) (take 3 ?data))"
    by (rule advance_to [OF a2, where t = "js ''1234 5678 9012''" and v = "js ''1234 5678 9012''"
        and Q = Q])
       (simp_all add: extract_answers W3_def js_eq_iff)
  have a4: "at_step W4 4 (take 4 ?data) 10 (map (\<lambda>(k, v). FieldUpdate (Some k) v) (take 4 ?data))"
    by (rule advance_to [OF a3, where t = "js ''9876543210''" and v = "js ''9876543210''"
        and Q = Q])
       (simp_all add: extract_answers W4_def js_eq_iff)
  have a5: "at_step W5 5 (take 5 ?data) 12 (map (\<lambda>(k, v). FieldUpdate (Some k) v) (take 5 ?data))"
    by (rule advance_to [OF a4, where t = "js ''50000''" and v = "js ''50000''"
        and Q = Q])
       (simp_all add: extract_answers W5_def js_eq_iff)
  have a6: "at_step W6 6 (take 6 ?data) 14 (map (\<lambda>(k, v). FieldUpdate (Some k) v) (take 6 ?data))"
    by (rule advance_to [OF a5, where t = "js ''Anand Gujarat''" and v = "js ''Anand Gujarat''"
        and Q = Q])
       (simp_all add: extract_answers W6_def js_eq_iff)
  have a7: "at_step W7 7 (take 7 ?data) 16 (map (\<lambda>(k, v). FieldUpdate (Some k) v) (take 7 ?data))"
    by (rule advance_to [OF a6, where t = "js ''100''" and v = "js ''100''"
        and Q = Q])
       (simp_all add: extract_answers W7_def js_eq_iff)
  have d: "?data = AList.update (js ''category'') (js ''General'') (take 7 ?data)"
    by (simp add: js_eq_iff)
  note b = last_at [OF a7 _ extract_answers(8) _ d, of Q, folded X_def]
  have vo: "valueOrEmpty ?data (js ''mobile'') = js ''9876543210''"
    "valueOrEmpty ?data (js ''aadhar'') = js ''1234 5678 9012''"
    by (simp_all add: valueOrEmpty_def js_eq_iff)
  have w: "run Q (initial (Some pm_awas) True)
              ([StartConversation (js ''hi-IN'') (js ''Namaste''),
                SpeakReply 0 AudioBlob, AudioEnded 0, SpeakReply 1 AudioBlob, AudioEnded 1]
               @ answer 2 (js ''Rajesh Kumar'') @ answer 4 (js ''Suresh Kumar'')
               @ answer 6 (js ''1234 5678 9012'') @ answer 8 (js ''9876543210'')
               @ answer 10 (js ''50000'') @ answer 12 (js ''Anand Gujarat'')
               @ answer 14 (js ''100'')) = W7"
    by (simp only: run_append W0_def W1_def W2_def W3_def W4_def W5_def W6_def W7_def)
  have o: "outward (effects X) = map (\<lambda>(k, v). FieldUpdate (Some k) v) ?data
             @ [FetchSaveForm (js ''unknown'') (js ''9876543210'') (js ''1234 5678 9012'') ?data,
                DownloadTimer]"
    using b(4) by (simp add: vo)
  have sv: "filter is_save (effects X)
      = [FetchSaveForm (js ''unknown'') (js ''9876543210'') (js ''1234 5678 9012'') ?data]"
    by (subst filter_outward) (auto simp: o is_save_def is_speech_effect_def split: effect.splits)
  have dl: "filter is_download (effects X) = [DownloadTimer]"
    by (subst filter_outward) (auto simp: o is_download_def is_speech_effect_def split: effect.splits)
  have sp: "stateRef (run Q W7 [Transcript (js ''General'')]) = SPEAKING"
    using b(1) by (simp add: run_def)
  note f7 = at_step_fields [OF a7]
  have fo: "map fst ?data = getFieldOrder W7" by (simp add: f7(1))
  show ?thesis
    unfolding Let_def w
    using f7(3) a7 b(2,3) o sv dl sp fo by (simp add: at_step_def X_def)
qed

section \<open>The fallback to the local synthesizer\<close>

lemmas speech_eval =
  run_def initial_def speakReply_def audioEnded_def audioError_def playRejected_def
  resolve_def complete_def fallbackSpeak_def startRequest_def stopCurrentAudio_def synthCancel_def
  utteranceDone_def set_phase_def set_status_def setStateAndRef_def addHistory_def emit_def
  speak_nonempty Let_def

text \<open>When the request to \<open>/speak\<close> fails or brings an empty blob, the local synthesizer
  speaks the text of the call, in its language.\<close>

lemma failed_request_local_voice:
  assumes "r \<noteq> AudioBlob" "speechSynthesis w \<noteq> None" "t \<noteq> []"
  shows "effects (speakReply Q (length (calls w)) r (speak Q t k aft w))
         = effects (speak Q t k aft w)
           @ [SynthCancel, SynthSpeak (length (calls w)) t
                (if languageRef w = [] then js ''hi-IN'' else languageRef w)]
           @ after_effects aft w"
proof -
  let ?w1 = "startRequest t k aft w"
  have c1: "length (calls w) < length (calls ?w1)"
    "c_phase (calls ?w1 ! length (calls w)) = Fetching"
    "c_onEnd (calls ?w1 ! length (calls w)) = k" "c_after (calls ?w1 ! length (calls w)) = aft"
    "c_text (calls ?w1 ! length (calls w)) = t"
    "c_lang (calls ?w1 ! length (calls w)) = languageRef w"
    by simp_all
  from assms(2) have q: "speechSynthesis ?w1 = Some []" by auto
  have l: "languageRef (synthCancel ?w1) = languageRef ?w1" "effects (synthCancel ?w1) = effects ?w1 @ [SynthCancel]"
    "speechSynthesis (synthCancel ?w1) = Some []"
    using q by (simp_all add: synthCancel_def emit_def)
  have "speakReply Q (length (calls w)) r ?w1
        = run_after aft (fallbackSpeak Q (length (calls w)) t (languageRef w) k ?w1)"
    using speakReply_failed [OF c1(1,2) assms(1), of Q] c1 by simp
  moreover have "effects (fallbackSpeak Q (length (calls w)) t (languageRef w) k ?w1)
        = effects ?w1 @ [SynthCancel, SynthSpeak (length (calls w)) t
                (if languageRef w = [] then js ''hi-IN'' else languageRef w)]"
    using q l by (simp add: fallbackSpeak_def Let_def emit_def set_phase_def)
  moreover have "session_of (fallbackSpeak Q (length (calls w)) t (languageRef w) k ?w1)
        = session_of w"
    using q by (simp add: fallbackSpeak_def Let_def)
  then have "after_effects aft (fallbackSpeak Q (length (calls w)) t (languageRef w) k ?w1)
        = after_effects aft w"
    by (rule after_effects_session)
  ultimately show ?thesis
    using assms(3) by (simp add: speak_nonempty run_after_effects)
qed

text \<open>
  C6.  A call of \<open>speak\<close> whose request to \<open>/speak\<close> succeeds with audio, and whose
  \<open>audio.play()\<close> the browser refuses: the handler of the rejection resolves the promise,
  the state becomes listening and the completion of the call fires, once; but nothing is
  handed to the local synthesizer, and nothing is playing: the text of the call is never
  spoken.  When the request itself fails, the same call is spoken by the local synthesizer.
\<close>

theorem blocked_playback_no_local_voice:
  "(let w = run no_questions
              (speak no_questions (js ''hello'') NoCallback Return (initial None True))
              [SpeakReply 0 AudioBlob, PlayRejected 0]
    in effects w = [SynthCancel, FetchSpeak 0 (js ''hello'') (js ''hi-IN''), AudioPlay 0]
       \<and> filter is_synth_speak (effects w) = []
       \<and> map a_status (audios w) = [Stopped]
       \<and> speechSynthesis w = Some []
       \<and> stateRef w = LISTENING
       \<and> completions w = [0])
   \<and> (let w = run no_questions
              (speak no_questions (js ''hello'') NoCallback Return (initial None True))
              [SpeakReply 0 NetworkError]
    in filter is_synth_speak (effects w) = [SynthSpeak 0 (js ''hello'') (js ''hi-IN'')]
       \<and> stateRef w = SPEAKING)"
  by (simp add: speech_eval is_synth_speak_def)

section \<open>Each completion signal fires at most once\<close>

lemma calls_inv_upd [simp]:
  "calls_inv (w\<lparr>stateRef := s\<rparr>) = calls_inv w"
  "calls_inv (w\<lparr>currentStepRef := n\<rparr>) = calls_inv w"
  "calls_inv (w\<lparr>languageRef := l\<rparr>) = calls_inv w"
  "calls_inv (w\<lparr>collectedDataRef := d\<rparr>) = calls_inv w"
  "calls_inv (w\<lparr>schemeRef := sc\<rparr>) = calls_inv w"
  "calls_inv (w\<lparr>conversationHistory := h\<rparr>) = calls_inv w"
  "calls_inv (w\<lparr>currentAudio := ca\<rparr>) = calls_inv w"
  "calls_inv (w\<lparr>audios := au\<rparr>) = calls_inv w"
  "calls_inv (w\<lparr>pendingRecommend := p\<rparr>) = calls_inv w"
  "calls_inv (w\<lparr>effects := es\<rparr>) = calls_inv w"
  by (simp_all add: calls_inv_def queue_def)

lemma calls_inv_basic [simp]:
  "calls_inv (setStateAndRef s w) = calls_inv w"
  "calls_inv (setStepAndRef n w) = calls_inv w"
  "calls_inv (addHistory who t w) = calls_inv w"
  "calls_inv (emit e w) = calls_inv w"
  "calls_inv (set_status a st w) = calls_inv w"
  by (simp_all add: setStateAndRef_def setStepAndRef_def addHistory_def emit_def set_status_def)

lemma calls_inv_stopCurrentAudio [simp]: "calls_inv (stopCurrentAudio w) = calls_inv w"
  by (simp add: stopCurrentAudio_def split: option.splits)

lemma calls_inv_synthCancel: "calls_inv w \<Longrightarrow> calls_inv (synthCancel w)"
  by (auto simp: synthCancel_def emit_def calls_inv_def queue_def split: option.splits)

lemma calls_inv_run_after [simp]: "calls_inv (run_after aft w) = calls_inv w"
  by (cases aft) (simp_all add: Let_def)

lemma calls_inv_new_call:
  assumes "calls_inv w" "c_phase c = Fetching"
  shows "calls_inv (w\<lparr>calls := calls w @ [c]\<rparr>)"
proof -
  have "n < length (calls w) \<Longrightarrow> (calls w @ [c]) ! n = calls w ! n" for n
    by (simp add: nth_append)
  with assms(1) show ?thesis
    by (simp add: calls_inv_def queue_def list_all_iff less_SucI)
qed

lemma calls_inv_startRequest: "calls_inv w \<Longrightarrow> calls_inv (startRequest t k a w)"
proof -
  assume "calls_inv w"
  then have "calls_inv (addHistory AI t (setStateAndRef SPEAKING (synthCancel (stopCurrentAudio w))))"
    by (simp add: calls_inv_synthCancel)
  then show ?thesis
    by (simp add: startRequest_def Let_def calls_inv_new_call)
qed

lemma calls_inv_speak_family:
  "calls_inv w \<Longrightarrow> calls_inv (speak Q t k a w)"
  "calls_inv w \<Longrightarrow> calls_inv (run_onEnd Q k w)"
  "calls_inv w \<Longrightarrow> calls_inv (askNextQuestion Q n w)"
  by (induction Q t k a w and Q k w and Q n w rule: speak_run_onEnd_askNextQuestion.induct)
     (simp_all add: speak.simps askNextQuestion.simps calls_inv_startRequest)

text \<open>The completion of a call that has not completed and that no utterance waits for.\<close>

lemma calls_inv_complete:
  assumes inv: "calls_inv w" and n: "n < length (calls w)"
    and ph: "c_phase (calls w ! n) \<noteq> Settled"
    and nu: "\<forall>u \<in> set (queue w @ cancelledUtterances w). u_call u \<noteq> n"
  shows "calls_inv (complete Q n k w)"
proof -
  let ?w1 = "w\<lparr>calls := (calls w)[n := (calls w ! n)\<lparr>c_phase := Settled\<rparr>],
       stateRef := LISTENING, completions := completions w @ [n]\<rparr>"
  from inv ph have "n \<notin> set (completions w)"
    by (auto simp: calls_inv_def list_all_iff)
  with inv n nu have "calls_inv ?w1"
    by (auto simp: calls_inv_def queue_def list_all_iff nth_list_update)
  then show ?thesis
    by (simp add: complete_unfold calls_inv_speak_family)
qed

lemma calls_inv_run_after_iff: "calls_inv (run_after aft w) = calls_inv w"
  by simp

lemma no_waiting_utterance:
  assumes "calls_inv w" "c_phase (calls w ! n) \<noteq> LocalVoice"
  shows "\<forall>u \<in> set (queue w @ cancelledUtterances w). u_call u \<noteq> n"
  using assms by (auto simp: calls_inv_def list_all_iff)

lemma calls_inv_fallbackSpeak:
  assumes inv: "calls_inv w" and n: "n < length (calls w)"
    and ph: "c_phase (calls w ! n) = Fetching"
  shows "calls_inv (fallbackSpeak Q n t l k w)"
proof (cases "speechSynthesis w")
  case None
  then show ?thesis
    using calls_inv_complete [OF inv n _ no_waiting_utterance [OF inv], of Q k] ph
    by (simp add: fallbackSpeak_def)
next
  case (Some q)
  from inv ph have nu: "\<forall>u \<in> set (q @ cancelledUtterances w). u_call u \<noteq> n"
    using no_waiting_utterance [OF inv, of n] Some by (simp add: queue_def)
  with inv n Some ph show ?thesis
    by (auto simp: fallbackSpeak_def synthCancel_def Let_def emit_def set_phase_def
        calls_inv_def queue_def list_all_iff nth_list_update)
qed

lemma calls_inv_speakReply: "calls_inv w \<Longrightarrow> calls_inv (speakReply Q n r w)"
proof -
  assume inv: "calls_inv w"
  show ?thesis
  proof (cases "n < length (calls w) \<and> c_phase (calls w ! n) = Fetching")
    case False
    with inv show ?thesis by (auto simp: speakReply_def)
  next
    case True
    show ?thesis
    proof (cases "r = AudioBlob")
      case False
      with True inv show ?thesis
        by (simp add: speakReply_failed calls_inv_fallbackSpeak)
    next
      case r: True
      from inv True have nu: "\<forall>u \<in> set (queue w @ cancelledUtterances w). u_call u \<noteq> n"
        using no_waiting_utterance [OF inv, of n] by simp
      have "calls_inv (set_phase n (AwaitingAudio (length (audios w))) w)"
        using inv True nu
        by (auto simp: set_phase_def calls_inv_def queue_def list_all_iff nth_list_update)
      with True r show ?thesis
        by (simp add: speakReply_audio)
    qed
  qed
qed

lemma calls_inv_resolve: "calls_inv w \<Longrightarrow> calls_inv (resolve Q n w)"
proof -
  assume inv: "calls_inv w"
  show ?thesis
  proof (cases "n < length (calls w)")
    case False
    with inv show ?thesis by (simp add: resolve_def)
  next
    case n: True
    show ?thesis
    proof (cases "c_phase (calls w ! n)")
      case (AwaitingAudio a)
      then show ?thesis
        using calls_inv_complete [OF inv n _ no_waiting_utterance [OF inv], of Q "c_onEnd (calls w ! n)"] n
        by (simp add: resolve_def)
    qed (use inv n in \<open>simp_all add: resolve_def\<close>)
  qed
qed

lemma calls_inv_audio_events:
  "calls_inv w \<Longrightarrow> calls_inv (audioEnded Q a w)"
  "calls_inv w \<Longrightarrow> calls_inv (audioError Q a w)"
  "calls_inv w \<Longrightarrow> calls_inv (playRejected Q a w)"
  by (simp_all add: audioEnded_def audioError_def playRejected_def calls_inv_resolve)

lemma calls_inv_utteranceDone: "calls_inv w \<Longrightarrow> calls_inv (utteranceDone Q w)"
proof -
  assume inv: "calls_inv w"
  show ?thesis
  proof (cases "speechSynthesis w")
    case None
    with inv show ?thesis by (simp add: utteranceDone_def)
  next
    case (Some q)
    show ?thesis
    proof (cases q)
      case Nil
      with Some inv show ?thesis by (simp add: utteranceDone_def)
    next
      case (Cons u q')
      let ?w1 = "w\<lparr>speechSynthesis := Some q'\<rparr>"
      from inv Some Cons have 1: "calls_inv ?w1" "u_call u < length (calls ?w1)"
        "c_phase (calls ?w1 ! u_call u) \<noteq> Settled"
        "\<forall>v \<in> set (queue ?w1 @ cancelledUtterances ?w1). u_call v \<noteq> u_call u"
        by (auto simp: calls_inv_def queue_def list_all_iff image_iff)
      from calls_inv_complete [OF 1, of Q "u_onEnd u"] Some Cons show ?thesis
        by (simp add: utteranceDone_def)
    qed
  qed
qed

lemma calls_inv_cancelledUtteranceError:
  "calls_inv w \<Longrightarrow> calls_inv (cancelledUtteranceError Q i w)"
proof -
  assume inv: "calls_inv w"
  show ?thesis
  proof (cases "i < length (cancelledUtterances w)")
    case False
    with inv show ?thesis by (simp add: cancelledUtteranceError_def)
  next
    case i: True
    let ?c = "cancelledUtterances w"
    let ?u = "?c ! i"
    let ?w1 = "w\<lparr>cancelledUtterances := take i ?c @ drop (Suc i) ?c\<rparr>"
    have c: "?c = take i ?c @ ?u # drop (Suc i) ?c"
      using i by (simp add: id_take_nth_drop)
    have "calls_inv (w\<lparr>cancelledUtterances := take i ?c @ ?u # drop (Suc i) ?c\<rparr>)"
      using inv c by simp
    then have 1: "calls_inv ?w1" "u_call ?u < length (calls ?w1)"
        "c_phase (calls ?w1 ! u_call ?u) \<noteq> Settled"
        "\<forall>v \<in> set (queue ?w1 @ cancelledUtterances ?w1). u_call v \<noteq> u_call ?u"
      by (auto simp: calls_inv_def queue_def list_all_iff image_iff split: option.splits)
    from calls_inv_complete [OF 1, of Q "u_onEnd ?u"] i show ?thesis
      by (simp add: cancelledUtteranceError_def)
  qed
qed

lemma calls_inv_processResponse: "calls_inv w \<Longrightarrow> calls_inv (processResponse Q t w)"
  by (simp add: processResponse_def Let_def calls_inv_speak_family)

lemma calls_inv_recommendReply: "calls_inv w \<Longrightarrow> calls_inv (recommendReply Q r w)"
  by (simp add: recommendReply_def Let_def calls_inv_speak_family split: recommend_result.splits)

lemma calls_inv_startConversation:
  "calls_inv w \<Longrightarrow> calls_inv (startConversation Q l g w)"
  by (simp add: startConversation_def Let_def calls_inv_speak_family)

lemma calls_inv_handle: "calls_inv w \<Longrightarrow> calls_inv (handle Q w e)"
  by (cases e)
     (simp_all add: calls_inv_processResponse calls_inv_recommendReply calls_inv_startConversation
        calls_inv_speakReply calls_inv_audio_events calls_inv_utteranceDone
        calls_inv_cancelledUtteranceError)

lemma calls_inv_run: "calls_inv w \<Longrightarrow> calls_inv (run Q w es)"
  unfolding run_def by (induction es arbitrary: w) (simp_all add: calls_inv_handle)

lemma calls_inv_initial: "calls_inv (initial s synth)"
  by (simp add: calls_inv_def initial_def queue_def)

section \<open>What \<open>speak\<close> stops\<close>

lemma playing_stopCurrentAudio:
  "playing (stopCurrentAudio w) = filter (\<lambda>a. currentAudio w \<noteq> Some a) (playing w)"
proof (cases "currentAudio w")
  case None
  then show ?thesis by (simp add: stopCurrentAudio_def)
next
  case (Some a)
  have "a_status ((audios w)[a := (audios w ! a)\<lparr>a_status :=
            (if a_status (audios w ! a) = Playing then Paused else a_status (audios w ! a)),
            a_onended := False\<rparr>] ! b) = Playing
        \<longleftrightarrow> a_status (audios w ! b) = Playing \<and> a \<noteq> b"
    if "b < length (audios w)" for b
    using that by (cases "a = b") simp_all
  then show ?thesis
    using Some by (auto simp: stopCurrentAudio_def playing_def emit_def intro!: filter_cong)
qed

lemma audios_startRequest: "audios (startRequest t k aft w) = audios (stopCurrentAudio w)"
  by (simp add: startRequest_def Let_def emit_def addHistory_def setStateAndRef_def)

lemma playing_startRequest:
  "playing (startRequest t k aft w) = filter (\<lambda>a. currentAudio w \<noteq> Some a) (playing w)"
  using playing_stopCurrentAudio [of w] by (simp add: playing_def audios_startRequest)

lemma onended_startRequest:
  "currentAudio w = Some a \<Longrightarrow> a < length (audios w)
   \<Longrightarrow> \<not> a_onended (audios (startRequest t k aft w) ! a)"
  by (simp add: audios_startRequest stopCurrentAudio_def emit_def)

lemma queue_startRequest:
  "queue (startRequest t k aft w) = []"
  by (simp add: queue_def split: option.splits)

text \<open>Two calls of \<open>speak\<close>, the second made while the request of the first is on its way
  (a message typed while the greeting is fetched): both answers are played.\<close>

lemma overlapping_requests:
  assumes "run Q (startRequest t2 k2 a2 (addHistory USER u (setStateAndRef PROCESSING
       (startRequest t1 k1 a1 (initial s synth)))))
     [SpeakReply 0 AudioBlob, SpeakReply 1 AudioBlob] = X"
  shows "playing X = [0, 1] \<and> currentAudio X = Some 1"
proof -
  define W where "W = startRequest t2 k2 a2 (addHistory USER u (setStateAndRef PROCESSING
       (startRequest t1 k1 a1 (initial s synth))))"
  have i: "calls (initial s synth) = []" "audios (initial s synth) = []"
    "currentAudio (initial s synth) = None"
    by (simp_all add: initial_def)
  have w0: "audios (startRequest t1 k1 a1 (initial s synth)) = []"
    by (simp add: audios_startRequest stopCurrentAudio_def i)
  have W: "length (calls W) = 2" "c_phase (calls W ! 0) = Fetching"
    "c_phase (calls W ! 1) = Fetching" "audios W = []"
    by (simp_all add: W_def audios_startRequest stopCurrentAudio_def i w0
        addHistory_def setStateAndRef_def nth_append)
  define W1 where "W1 = speakReply Q 0 AudioBlob W"
  have W1: "W1 = emit (AudioPlay 0)
       ((set_phase 0 (AwaitingAudio 0) W)
          \<lparr>audios := [\<lparr>a_call = 0, a_onended = True, a_status = Playing\<rparr>],
           currentAudio := Some 0\<rparr>)"
    unfolding W1_def using speakReply_audio [of 0 W Q] W by simp
  have W1c: "length (calls W1) = 2" "c_phase (calls W1 ! 1) = Fetching"
    "audios W1 = [\<lparr>a_call = 0, a_onended = True, a_status = Playing\<rparr>]"
    using W by (simp_all add: W1 emit_def set_phase_def)
  have W2: "speakReply Q 1 AudioBlob W1 = emit (AudioPlay 1)
       ((set_phase 1 (AwaitingAudio 1) W1)
          \<lparr>audios := [\<lparr>a_call = 0, a_onended = True, a_status = Playing\<rparr>,
                       \<lparr>a_call = 1, a_onended = True, a_status = Playing\<rparr>],
           currentAudio := Some 1\<rparr>)"
    using speakReply_audio [of 1 W1 Q] W1c by simp
  have X: "X = speakReply Q 1 AudioBlob W1"
    using assms by (simp add: run_def W1_def W_def)
  show ?thesis
    unfolding X W2 by (simp add: emit_def set_phase_def playing_def)
qed

text \<open>
  C5 (as amended).  A call of \<open>speak\<close> with a text pauses the audio element that is registered as the
  current one and detaches its \<open>onended\<close> handler, clears the registration and empties the
  queue of the local synthesizer, before its own request is sent: of the audio elements
  that were playing, those other than the registered one still play.  And in every run of
  the hook from its first render, no call of \<open>speak\<close> has its completion fire twice.
\<close>

theorem speak_stops_registered_audio:
  "t \<noteq> [] \<Longrightarrow>
     playing (speak Q t k aft w) = filter (\<lambda>a. currentAudio w \<noteq> Some a) (playing w)
     \<and> (\<forall>a. currentAudio w = Some a \<and> a < length (audios w)
            \<longrightarrow> \<not> a_onended (audios (speak Q t k aft w) ! a))
     \<and> currentAudio (speak Q t k aft w) = None
     \<and> queue (speak Q t k aft w) = []
     \<and> distinct (completions (run Q (initial s synth) es))"
proof -
  assume t: "t \<noteq> []"
  have "calls_inv (run Q (initial s synth) es)"
    by (rule calls_inv_run [OF calls_inv_initial])
  then have "distinct (completions (run Q (initial s synth) es))"
    by (simp add: calls_inv_def)
  then show ?thesis
    using t by (simp add: speak_nonempty playing_startRequest onended_startRequest
        queue_startRequest)
qed

text \<open>A message typed while the greeting is being fetched: when both answers have arrived,
  two audio elements are playing.\<close>

theorem overlapping_requests_both_play_counterexample:
  "playing (run no_questions (initial (Some pm_awas) True)
      [StartConversation (js ''hi-IN'') (js ''Namaste''), Transcript (js ''stop''),
       SpeakReply 0 AudioBlob, SpeakReply 1 AudioBlob]) = [0, 1]"
proof -
  let ?w1 = "startRequest (js ''Namaste'') (AskNext 0) Return
      ((initial (Some pm_awas) True)\<lparr>languageRef := js ''hi-IN'', conversationHistory := [],
          currentStepRef := 0, collectedDataRef := []\<rparr>)"
  have i: "(initial (Some pm_awas) True)\<lparr>languageRef := js ''hi-IN'', conversationHistory := [],
          currentStepRef := 0, collectedDataRef := []\<rparr> = initial (Some pm_awas) True"
    by (simp add: initial_def)
  have 1: "startConversation no_questions (js ''hi-IN'') (js ''Namaste'') (initial (Some pm_awas) True)
        = ?w1"
    by (simp add: startConversation_def Let_def speak_nonempty initial_def)
  have s: "session_of ?w1 = session_of (listening_at pm_awas 0)"
    by (simp add: i) (simp add: session_of_def listening_at_def initial_def)
  have k: "currentFieldKey ?w1 = Some (js ''name'')"
    using pm_awas_key_0 session_fields [OF s] getFieldOrder_session [OF s]
    by (simp add: currentFieldKey_def)
  have 2: "processResponse no_questions (js ''stop'') ?w1
        = startRequest (PHRASES_retry (langCode ?w1)) (AskNext (currentStepRef ?w1)) Return
            (addHistory USER (js ''stop'') (setStateAndRef PROCESSING ?w1))"
    by (rule processResponse_retry)
       (simp_all add: form_filling_def stop_not_extracted k generic_name)
  have "run no_questions (initial (Some pm_awas) True)
      [StartConversation (js ''hi-IN'') (js ''Namaste''), Transcript (js ''stop''),
       SpeakReply 0 AudioBlob, SpeakReply 1 AudioBlob]
      = run no_questions
          (processResponse no_questions (js ''stop'')
             (startConversation no_questions (js ''hi-IN'') (js ''Namaste'')
                (initial (Some pm_awas) True)))
          [SpeakReply 0 AudioBlob, SpeakReply 1 AudioBlob]"
    by (simp add: run_def)
  also have "\<dots> = run no_questions
          (startRequest (PHRASES_retry (langCode ?w1)) (AskNext (currentStepRef ?w1)) Return
            (addHistory USER (js ''stop'') (setStateAndRef PROCESSING
               (startRequest (js ''Namaste'') (AskNext 0) Return (initial (Some pm_awas) True)))))
          [SpeakReply 0 AudioBlob, SpeakReply 1 AudioBlob]"
    by (simp only: 1 2) (simp only: i)
  finally show ?thesis
    using overlapping_requests [OF refl] by simp
qed

theorem speak_stops_registered_audio_witness:
  "js ''again'' \<noteq> []
   \<and> playing (run no_questions
        (speak no_questions (js ''hello'') NoCallback Return (initial None True))
        [SpeakReply 0 AudioBlob]) = [0]
   \<and> playing (speak no_questions (js ''again'') NoCallback Return
        (run no_questions
           (speak no_questions (js ''hello'') NoCallback Return (initial None True))
           [SpeakReply 0 AudioBlob])) = []
   \<and> distinct (completions (run no_questions (initial None True)
        [StartConversation (js ''hi-IN'') (js ''Namaste''),
         SpeakReply 0 AudioBlob, AudioEnded 0, AudioError 0]))"
proof -
  let ?W = "run no_questions
        (speak no_questions (js ''hello'') NoCallback Return (initial None True))
        [SpeakReply 0 AudioBlob]"
  have w: "playing ?W = [0]" "currentAudio ?W = Some 0"
    by (simp_all add: speech_eval playing_def)
  have ne: "js ''again'' \<noteq> []" by simp
  note th = speak_stops_registered_audio [OF ne, where Q = no_questions and k = NoCallback
      and aft = Return and w = ?W and s = None and synth = True
      and es = "[StartConversation (js ''hi-IN'') (js ''Namaste''),
         SpeakReply 0 AudioBlob, AudioEnded 0, AudioError 0]"]
  from th have "playing (speak no_questions (js ''again'') NoCallback Return ?W)
      = filter (\<lambda>a. currentAudio ?W \<noteq> Some a) (playing ?W)"
    by (rule conjunct1)
  then have 1: "playing (speak no_questions (js ''again'') NoCallback Return ?W) = []"
    by (simp only: w) simp
  from th have 2: "distinct (completions (run no_questions (initial None True)
        [StartConversation (js ''hi-IN'') (js ''Namaste''),
         SpeakReply 0 AudioBlob, AudioEnded 0, AudioError 0]))"
    by blast
  from ne w(1) 1 2 show ?thesis by blast
qed

end
